theory Spec2Isabelle
  imports Complex_Main
begin

section \<open>Python values used by \<^verbatim>\<open>ad_detector.py\<close>\<close>

text \<open>
  A Python \<^verbatim>\<open>str\<close> is a sequence of Unicode code points, so a string is modelled as a
  list of code points (\<open>nat\<close>).  \<open>lit\<close> turns an ASCII literal of the source into that
  representation.
\<close>

type_synonym py_str = "nat list"

definition lit :: "string \<Rightarrow> py_str" where
  "lit s = map of_char s"

text \<open>
  The exceptions that the modelled code paths can meet.  \<open>ExternalError\<close> stands for
  whatever an external collaborator (the Florence-2 processor and model, the image
  decoder) raises.  All of them are subclasses of \<^verbatim>\<open>Exception\<close>; an interrupt from
  outside the program (\<^verbatim>\<open>KeyboardInterrupt\<close>) is not modelled.
\<close>

datatype py_error =
  IndexError | TypeError | ValueError | AttributeError | JSONDecodeError | OSError | ExternalError

text \<open>\<^verbatim>\<open>xs[i]\<close> for a constant index \<open>i \<ge> 0\<close>: out of range raises \<^verbatim>\<open>IndexError\<close>.\<close>

definition py_index :: "'a list \<Rightarrow> nat \<Rightarrow> py_error + 'a" where
  "py_index xs i = (if i < length xs then Inr (xs ! i) else Inl IndexError)"

text \<open>Sequencing of a computation that may raise: the first exception wins.\<close>

definition and_then :: "py_error + 'a \<Rightarrow> ('a \<Rightarrow> py_error + 'b) \<Rightarrow> py_error + 'b" where
  "and_then m f = (case m of Inl e \<Rightarrow> Inl e | Inr x \<Rightarrow> f x)"

text \<open>
  What \<^verbatim>\<open>json.load\<close> returns.  A \<^verbatim>\<open>dict\<close> is given by its items (the keys are
  distinct); numbers are given by their value.
\<close>

datatype json =
    JNull
  | JBool bool
  | JNum real
  | JStr py_str
  | JArr "json list"
  | JObj "(py_str \<times> json) list"

text \<open>Python truth value of such an object (\<^verbatim>\<open>not v\<close> is its negation).\<close>

fun truthy :: "json \<Rightarrow> bool" where
  "truthy JNull = False"
| "truthy (JBool b) = b"
| "truthy (JNum r) = (r \<noteq> 0)"
| "truthy (JStr s) = (s \<noteq> [])"
| "truthy (JArr xs) = (xs \<noteq> [])"
| "truthy (JObj kvs) = (kvs \<noteq> [])"

section \<open>Constants\<close>

definition GROUNDING_TASK :: py_str where
  "GROUNDING_TASK = lit ''<CAPTION_TO_PHRASE_GROUNDING>''"

text \<open>
  \<^verbatim>\<open>SKIP_AD_PATTERNS = [r"(?i)skip"]\<close>.  The regular expression is a sequence of four
  literals under the flag \<^verbatim>\<open>(?i)\<close>; each literal is given by the set of code points that
  Python's \<^verbatim>\<open>re\<close> lets it match.  For \<^verbatim>\<open>str\<close> patterns the flag is Unicode aware:
  besides the two ASCII cases, \<^verbatim>\<open>s\<close> matches U+017F, \<^verbatim>\<open>k\<close> matches U+212A and
  \<^verbatim>\<open>i\<close> matches U+0130 and U+0131.
\<close>

type_synonym regex = "nat list list"

definition SKIP_REGEX :: regex where
  "SKIP_REGEX = [[115, 83, 383], [107, 75, 8490], [105, 73, 304, 305], [112, 80]]"

definition SKIP_AD_PATTERNS :: "regex list" where
  "SKIP_AD_PATTERNS = [SKIP_REGEX]"

definition MAX_BBOX_AREA :: int where
  "MAX_BBOX_AREA = 50000"

section \<open>String operations\<close>

text \<open>\<^verbatim>\<open>str.isspace\<close> on one code point (the Unicode whitespace characters).\<close>

definition isspace :: "nat \<Rightarrow> bool" where
  "isspace c \<longleftrightarrow>
     (9 \<le> c \<and> c \<le> 13) \<or> (28 \<le> c \<and> c \<le> 32) \<or> c = 133 \<or> c = 160 \<or> c = 5760 \<or>
     (8192 \<le> c \<and> c \<le> 8202) \<or> c = 8232 \<or> c = 8233 \<or> c = 8239 \<or> c = 8287 \<or> c = 12288"

text \<open>\<^verbatim>\<open>label.strip()\<close>: leading and trailing whitespace removed.\<close>

definition strip :: "py_str \<Rightarrow> py_str" where
  "strip s = rev (dropWhile isspace (rev (dropWhile isspace s)))"

text \<open>The regular expression matched at the start of the text.\<close>

fun match_here :: "regex \<Rightarrow> py_str \<Rightarrow> bool" where
  "match_here [] s = True"
| "match_here (cl # r) [] = False"
| "match_here (cl # r) (c # s) = (c \<in> set cl \<and> match_here r s)"

text \<open>\<^verbatim>\<open>re.search(pattern, text)\<close> as a truth value: a match at some position.\<close>

fun re_search :: "regex \<Rightarrow> py_str \<Rightarrow> bool" where
  "re_search r [] = match_here r []"
| "re_search r (c # s) = (match_here r (c # s) \<or> re_search r s)"

text \<open>One literal of a regular expression accepts one code point.\<close>

definition lit_matches :: "nat list \<Rightarrow> nat \<Rightarrow> bool" where
  "lit_matches cl c \<longleftrightarrow> c \<in> set cl"

section \<open>Bounding boxes\<close>

text \<open>
  A bounding box is the Python list the grounding call returns, read at the indices
  0 to 3.  The coordinates are modelled as Python integers (pixel coordinates): on them
  the subtraction, the product and the comparison with \<^verbatim>\<open>MAX_BBOX_AREA\<close> are exact.
  Boxes with fractional binary64 coordinates are outside this model.
\<close>

type_synonym bbox = "int list"

text \<open>\<^verbatim>\<open>area = (box[2] - box[0]) * (box[3] - box[1])\<close>\<close>

definition bbox_area :: "bbox \<Rightarrow> py_error + int" where
  "bbox_area box =
     and_then (py_index box 2) (\<lambda>x2.
     and_then (py_index box 0) (\<lambda>x1.
     and_then (py_index box 3) (\<lambda>y2.
     and_then (py_index box 1) (\<lambda>y1.
       Inr ((x2 - x1) * (y2 - y1))))))"

text \<open>
  \<^verbatim>\<open>int(s / 2)\<close>: the true quotient, truncated toward zero by \<^verbatim>\<open>int\<close>.  The quotient is
  computed in binary64, where it is exact for \<open>\<bar>s\<bar> \<le> 2^53\<close>; pixel coordinates are far
  inside that range, and the model takes the exact quotient.
\<close>

definition int_half :: "int \<Rightarrow> int" where
  "int_half s = (if 0 \<le> s then s div 2 else - ((- s) div 2))"

text \<open>
  \<^verbatim>\<open>x_center = int((box[0] + box[2]) / 2)\<close> and
  \<^verbatim>\<open>y_center = int((box[1] + box[3]) / 2)\<close>
\<close>

definition bbox_center :: "bbox \<Rightarrow> py_error + int \<times> int" where
  "bbox_center box =
     and_then (py_index box 0) (\<lambda>x1.
     and_then (py_index box 2) (\<lambda>x2.
     and_then (py_index box 1) (\<lambda>y1.
     and_then (py_index box 3) (\<lambda>y2.
       Inr (int_half (x1 + x2), int_half (y1 + y2))))))"

section \<open>The detection call\<close>

text \<open>
  The value \<^verbatim>\<open>detect_skip_button\<close> returns: \<^verbatim>\<open>((x_center, y_center), box)\<close> or
  \<^verbatim>\<open>(None, None)\<close>.
\<close>

type_synonym detection = "(int \<times> int) option \<times> bbox option"

text \<open>
  The inner loop \<^verbatim>\<open>for pattern in SKIP_AD_PATTERNS\<close> on one pair.  \<open>Inr None\<close> means
  that the loop ended without a \<^verbatim>\<open>return\<close>; the \<^verbatim>\<open>continue\<close> after an oversized box
  goes on with the next pattern.
\<close>

fun scan_patterns :: "regex list \<Rightarrow> bbox \<Rightarrow> py_str \<Rightarrow> py_error + detection option" where
  "scan_patterns [] box label_stripped = Inr None"
| "scan_patterns (pattern # rest) box label_stripped =
     (if re_search pattern label_stripped then
        and_then (bbox_area box) (\<lambda>area.
          if area > MAX_BBOX_AREA then scan_patterns rest box label_stripped
          else and_then (bbox_center box) (\<lambda>center. Inr (Some (Some center, Some box))))
      else scan_patterns rest box label_stripped)"

text \<open>The outer loop \<^verbatim>\<open>for box, label in zip(bboxes, labels)\<close>.\<close>

fun scan_pairs :: "(bbox \<times> py_str) list \<Rightarrow> py_error + detection" where
  "scan_pairs [] = Inr (None, None)"
| "scan_pairs ((box, label) # rest) =
     and_then (scan_patterns SKIP_AD_PATTERNS box (strip label)) (\<lambda>r.
       case r of Some d \<Rightarrow> Inr d | None \<Rightarrow> scan_pairs rest)"

text \<open>
  The dictionary stored under the task key of the parsed model output; either key may be
  absent.
\<close>

record grounding_result =
  bboxes :: "bbox list option"
  labels :: "py_str list option"

text \<open>
  Lines 63 to 75 (processor, \<^verbatim>\<open>model.generate\<close>, \<^verbatim>\<open>batch_decode\<close>,
  \<^verbatim>\<open>post_process_generation\<close>) are external: a function of the prompt, the image and
  the image size that either raises or returns \<^verbatim>\<open>parsed_result\<close>, given here by its
  entry under \<^verbatim>\<open>GROUNDING_TASK\<close> (\<open>None\<close> when the key is absent).
\<close>

type_synonym 'img florence =
  "py_str \<Rightarrow> 'img \<Rightarrow> nat \<times> nat \<Rightarrow> py_error + grounding_result option"

text \<open>
  \<^verbatim>\<open>parsed_result.get(GROUNDING_TASK, {})\<close>, the two \<^verbatim>\<open>get\<close> calls with the default
  \<^verbatim>\<open>[]\<close>, and \<^verbatim>\<open>zip(bboxes, labels)\<close>: the pairs the loop goes through, in the
  model's output order.
\<close>

definition grounding_pairs :: "grounding_result option \<Rightarrow> (bbox \<times> py_str) list" where
  "grounding_pairs parsed_result =
     (let grounding_result =
            (case parsed_result of
               None \<Rightarrow> \<lparr>bboxes = None, labels = None\<rparr>
             | Some g \<Rightarrow> g);
          bs = (case bboxes grounding_result of None \<Rightarrow> [] | Some b \<Rightarrow> b);
          ls = (case labels grounding_result of None \<Rightarrow> [] | Some l \<Rightarrow> l)
      in zip bs ls)"

text \<open>
  The body of the \<^verbatim>\<open>try\<close> block.  The caption comes from \<^verbatim>\<open>settings.json\<close> and is any
  truthy JSON value; \<^verbatim>\<open>GROUNDING_TASK + grounding_caption\<close> raises \<^verbatim>\<open>TypeError\<close> when it
  is not a string.
\<close>

definition detect_try ::
  "'img florence \<Rightarrow> json \<Rightarrow> 'img \<Rightarrow> nat \<times> nat \<Rightarrow> py_error + detection" where
  "detect_try florence grounding_caption img image_size =
     (case grounding_caption of
        JStr caption \<Rightarrow>
          and_then (florence (GROUNDING_TASK @ caption) img image_size) (\<lambda>parsed_result.
            scan_pairs (grounding_pairs parsed_result))
      | _ \<Rightarrow> Inl TypeError)"

text \<open>\<^verbatim>\<open>except Exception\<close>: every exception of the body becomes \<^verbatim>\<open>(None, None)\<close>.\<close>

definition detect_skip_button ::
  "'img florence \<Rightarrow> json \<Rightarrow> 'img \<Rightarrow> nat \<times> nat \<Rightarrow> detection" where
  "detect_skip_button florence grounding_caption img image_size =
     (case detect_try florence grounding_caption img image_size of
        Inl e \<Rightarrow> (None, None)
      | Inr d \<Rightarrow> d)"

text \<open>Python truth value of the box a detection carries (\<^verbatim>\<open>if bbox:\<close>).\<close>

definition truthy_bbox :: "bbox option \<Rightarrow> bool" where
  "truthy_bbox b = (case b of None \<Rightarrow> False | Some box \<Rightarrow> box \<noteq> [])"

section \<open>Paths and output text\<close>

text \<open>\<^verbatim>\<open>os.path.join(a, b)\<close> and \<^verbatim>\<open>os.path.basename(p)\<close> on a POSIX system (separator 47).\<close>

definition path_join :: "py_str \<Rightarrow> py_str \<Rightarrow> py_str" where
  "path_join a b =
     (if b \<noteq> [] \<and> hd b = 47 then b
      else if a = [] \<or> last a = 47 then a @ b
      else a @ [47] @ b)"

definition basename :: "py_str \<Rightarrow> py_str" where
  "basename p = rev (takeWhile (\<lambda>c. c \<noteq> 47) (rev p))"

text \<open>\<^verbatim>\<open>str(n)\<close> for a count \<open>n \<ge> 0\<close>, as an f-string formats it.\<close>

fun str_nat :: "nat \<Rightarrow> py_str" where
  "str_nat n = (if n < 10 then [48 + n] else str_nat (n div 10) @ [48 + n mod 10])"

declare str_nat.simps [simp del]

definition GOLD :: py_str where
  "GOLD = 27 # lit ''[93m''"

definition RESET :: py_str where
  "RESET = 27 # lit ''[0m''"

section \<open>The environment\<close>

text \<open>
  Everything the script reads from outside.
  \<^item> \<open>settings_files path\<close>: the state of the file at \<open>path\<close> when \<^verbatim>\<open>load_settings\<close> runs.
  \<^item> \<open>model_loads\<close>, \<open>processor_loads\<close>: whether the two \<^verbatim>\<open>from_pretrained\<close> calls return;
    \<open>pretrained\<close> is the grounding call the loaded pair provides.
  \<^item> \<open>glob pattern\<close>: what \<^verbatim>\<open>glob.glob(pattern)\<close> returns.
  \<^item> \<open>open_image path\<close>: what \<^verbatim>\<open>process_image(path)\<close> returns or raises.
  \<^item> \<open>screen k\<close>: the image and size that the \<open>k\<close>-th call of \<^verbatim>\<open>capture_screen\<close> returns.
  \<^item> \<open>busy k\<close>: the wall-clock seconds spent in the \<open>k\<close>-th capture and the detection
    on it (with the saving of the snapshot when there is one).
  \<^item> \<open>timestamp k\<close>: \<^verbatim>\<open>datetime.now()\<close> as formatted after the \<open>k\<close>-th capture.
  \<^item> \<open>click_time\<close>: the wall-clock seconds spent in \<^verbatim>\<open>pyautogui.click\<close>.
  The screen capture, the writing of an annotated image file and the click are taken to
  return; \<^verbatim>\<open>print\<close> and \<^verbatim>\<open>os.makedirs\<close> are left out.
\<close>

datatype settings_file = Missing | Unreadable | Malformed | Contents json

record 'img world =
  settings_files :: "py_str \<Rightarrow> settings_file"
  model_loads :: bool
  processor_loads :: bool
  pretrained :: "'img florence"
  glob :: "py_str \<Rightarrow> py_str list"
  open_image :: "py_str \<Rightarrow> py_error + 'img \<times> (nat \<times> nat)"
  screen :: "nat \<Rightarrow> 'img \<times> (nat \<times> nat)"
  busy :: "nat \<Rightarrow> real"
  timestamp :: "nat \<Rightarrow> py_str"
  click_time :: real

section \<open>Settings\<close>

text \<open>\<^verbatim>\<open>d.get(key)\<close> on a \<^verbatim>\<open>dict\<close>: \<^verbatim>\<open>None\<close> when the key is absent.\<close>

definition dict_get :: "(py_str \<times> json) list \<Rightarrow> py_str \<Rightarrow> json" where
  "dict_get kvs k = (case map_of kvs k of None \<Rightarrow> JNull | Some v \<Rightarrow> v)"

text \<open>
  The body of the \<^verbatim>\<open>try\<close> block of \<^verbatim>\<open>load_settings\<close>.  The result \<open>None\<close> is the
  \<^verbatim>\<open>return None\<close> of the source.  Only a \<^verbatim>\<open>dict\<close> has the method \<^verbatim>\<open>get\<close>.
\<close>

definition load_settings_try :: "(py_str \<Rightarrow> settings_file) \<Rightarrow> py_str \<Rightarrow> py_error + json option" where
  "load_settings_try files settings_file =
     (case files settings_file of
        Missing \<Rightarrow> Inr None
      | Unreadable \<Rightarrow> Inl OSError
      | Malformed \<Rightarrow> Inl JSONDecodeError
      | Contents settings \<Rightarrow>
          (case settings of
             JObj kvs \<Rightarrow>
               if \<not> truthy (dict_get kvs (lit ''grounding_caption'')) then Inr None
               else Inr (Some settings)
           | _ \<Rightarrow> Inl AttributeError))"

definition load_settings :: "(py_str \<Rightarrow> settings_file) \<Rightarrow> py_str \<Rightarrow> json option" where
  "load_settings files settings_file =
     (case load_settings_try files settings_file of
        Inl e \<Rightarrow> None
      | Inr r \<Rightarrow> r)"

section \<open>Annotated images\<close>

text \<open>
  \<^verbatim>\<open>draw_bbox_on_image(image, bbox, output_path)\<close>: nothing happens for a falsy box;
  \<^verbatim>\<open>x1, y1, x2, y2 = bbox\<close> raises \<^verbatim>\<open>ValueError\<close> unless the box has four entries; otherwise
  the file \<open>output_path\<close> is written.  The result lists the files written.
\<close>

definition draw_bbox_on_image :: "bbox option \<Rightarrow> py_str \<Rightarrow> py_error + (py_str \<times> bbox) list" where
  "draw_bbox_on_image b output_path =
     (case b of
        None \<Rightarrow> Inr []
      | Some box \<Rightarrow>
          if box = [] then Inr []
          else if length box = 4 then Inr [(output_path, box)]
          else Inl ValueError)"

section \<open>Test mode\<close>

text \<open>One entry of the result list; \<open>img_file\<close> is the key \<^verbatim>\<open>"file"\<close>.\<close>

record test_record =
  img_file :: py_str
  detected :: bool
  position :: "(int \<times> int) option"
  bbox :: "bbox option"

text \<open>
  The loop \<^verbatim>\<open>for img_path in image_files\<close>; the state is \<^verbatim>\<open>results\<close> and the files
  written so far.
\<close>

fun test_loop ::
  "'img world \<Rightarrow> 'img florence \<Rightarrow> json \<Rightarrow> py_str \<Rightarrow> py_str list \<Rightarrow>
   test_record list \<times> (py_str \<times> bbox) list \<Rightarrow>
   py_error + test_record list \<times> (py_str \<times> bbox) list" where
  "test_loop w fl grounding_caption output_dir [] st = Inr st"
| "test_loop w fl grounding_caption output_dir (img_path # rest) st =
     and_then (open_image w img_path) (\<lambda>(img, image_size).
       let (pos, box) = detect_skip_button fl grounding_caption img image_size;
           result = \<lparr>img_file = img_path, detected = (box \<noteq> None), position = pos, bbox = box\<rparr>;
           results = fst st @ [result];
           output_path = path_join output_dir (lit ''output_'' @ basename img_path)
       in and_then (if truthy_bbox box then draw_bbox_on_image box output_path else Inr [])
            (\<lambda>files. test_loop w fl grounding_caption output_dir rest (results, snd st @ files)))"

text \<open>
  What a run of test mode produces: the summary line it prints, the list it returns and
  the files it has written.
\<close>

record test_run =
  summary :: py_str
  results :: "test_record list"
  written :: "(py_str \<times> bbox) list"

definition image_files :: "'img world \<Rightarrow> py_str \<Rightarrow> py_str list" where
  "image_files w test_dir =
     glob w (path_join test_dir (lit ''*.png'')) @ glob w (path_join test_dir (lit ''*.jpg''))"

definition run_test_mode ::
  "'img world \<Rightarrow> 'img florence \<Rightarrow> json \<Rightarrow> py_str \<Rightarrow> py_str \<Rightarrow> py_error + test_run" where
  "run_test_mode w fl grounding_caption test_dir output_dir =
     and_then (test_loop w fl grounding_caption output_dir (image_files w test_dir) ([], []))
       (\<lambda>(rs, files).
          Inr \<lparr>summary =
                 GOLD @ lit ''Test complete: '' @ str_nat (length (filter detected rs)) @
                 lit ''/'' @ str_nat (length rs) @ lit '' detections.'' @ RESET,
               results = rs,
               written = files\<rparr>)"

section \<open>Live mode\<close>

text \<open>
  The state a live run goes through: the wall clock in seconds (\<^verbatim>\<open>time.time()\<close>), the
  number of screen captures made, the clicks issued and the snapshots written.
\<close>

record live_state =
  clock :: real
  captures :: nat
  clicks :: "(int \<times> int) list"
  snapshots :: "(py_str \<times> bbox) list"

text \<open>One \<^verbatim>\<open>capture_screen()\<close> followed by \<^verbatim>\<open>detect_skip_button\<close> on the captured image.\<close>

definition capture_and_detect ::
  "'img world \<Rightarrow> 'img florence \<Rightarrow> json \<Rightarrow> live_state \<Rightarrow> detection \<times> live_state" where
  "capture_and_detect w fl grounding_caption s =
     (let (img, image_size) = screen w (captures s)
      in (detect_skip_button fl grounding_caption img image_size,
          s\<lparr>clock := clock s + busy w (captures s), captures := Suc (captures s)\<rparr>))"

text \<open>The detection on the \<open>k\<close>-th screen capture.\<close>

definition detect_at :: "'img world \<Rightarrow> 'img florence \<Rightarrow> json \<Rightarrow> nat \<Rightarrow> detection" where
  "detect_at w fl grounding_caption k =
     detect_skip_button fl grounding_caption (fst (screen w k)) (snd (screen w k))"

text \<open>\<^verbatim>\<open>time.sleep(secs)\<close>: a negative argument raises \<^verbatim>\<open>ValueError\<close>.\<close>

definition sleep :: "int \<Rightarrow> live_state \<Rightarrow> py_error + live_state" where
  "sleep secs s = (if secs < 0 then Inl ValueError else Inr (s\<lparr>clock := clock s + real_of_int secs\<rparr>))"

text \<open>
  The \<^verbatim>\<open>while\<close> loop of \<^verbatim>\<open>run_live_mode\<close>.  It returns \<^verbatim>\<open>(button_found, click_position)\<close>
  as they are when the loop is left, or the exception that left it.  The loop need not
  end: \<open>None\<close> is the run that polls forever.
\<close>

partial_function (option) poll_loop ::
  "'img world \<Rightarrow> 'img florence \<Rightarrow> json \<Rightarrow> py_str \<Rightarrow> int \<Rightarrow> int \<Rightarrow> real \<Rightarrow> live_state \<Rightarrow>
   ((py_error + bool \<times> (int \<times> int) option) \<times> live_state) option" where
  "poll_loop w fl grounding_caption output_dir interval max_poll_seconds start_time s =
     (if clock s - start_time < real_of_int max_poll_seconds then
        (case capture_and_detect w fl grounding_caption s of
           ((pos, box), s1) \<Rightarrow>
             if truthy_bbox box then
               (case draw_bbox_on_image box
                       (path_join output_dir
                          (lit ''detection_'' @ timestamp w (captures s) @ lit ''.png'')) of
                  Inl e \<Rightarrow> Some (Inl e, s1)
                | Inr files \<Rightarrow> Some (Inr (True, pos), s1\<lparr>snapshots := snapshots s1 @ files\<rparr>))
             else
               (case sleep interval s1 of
                  Inl e \<Rightarrow> Some (Inl e, s1)
                | Inr s2 \<Rightarrow>
                    poll_loop w fl grounding_caption output_dir interval max_poll_seconds
                      start_time s2))
      else Some (Inr (False, None), s))"

text \<open>\<^verbatim>\<open>skip_ad_action(position)\<close>: one click at a position that is not \<^verbatim>\<open>None\<close>.\<close>

definition skip_ad_action :: "'img world \<Rightarrow> (int \<times> int) option \<Rightarrow> live_state \<Rightarrow> live_state" where
  "skip_ad_action w pos s =
     (case pos of
        None \<Rightarrow> s
      | Some xy \<Rightarrow> s\<lparr>clock := clock s + click_time w, clicks := clicks s @ [xy]\<rparr>)"

definition MSG_SKIPPED :: py_str where
  "MSG_SKIPPED = lit ''Ad skipped successfully!''"

text \<open>The dash of the second message is U+2014.\<close>

definition MSG_STILL_PRESENT :: py_str where
  "MSG_STILL_PRESENT =
     lit ''Clicked, but '' @ [39] @ lit ''Skip'' @ [39] @ lit '' button may still be present'' @
     [8212] @ lit ''manual check needed.''"

definition MSG_TIME_LIMIT :: py_str where
  "MSG_TIME_LIMIT = lit ''No skip ad button detected within time limit. Try again?''"

text \<open>
  \<^verbatim>\<open>verify_skip_success\<close>: sleep two seconds, capture, detect; success is
  \<^verbatim>\<open>bbox is None\<close>.
\<close>

definition verify_skip_success ::
  "'img world \<Rightarrow> 'img florence \<Rightarrow> json \<Rightarrow> live_state \<Rightarrow> (py_str \<times> py_str) \<times> live_state" where
  "verify_skip_success w fl grounding_caption s =
     (case capture_and_detect w fl grounding_caption (s\<lparr>clock := clock s + 2\<rparr>) of
        ((pos, box), s1) \<Rightarrow>
          let success = (box = None);
              status = (if success then lit ''success'' else lit ''partial'');
              message = (if success then MSG_SKIPPED else MSG_STILL_PRESENT)
          in ((status, message), s1))"

text \<open>
  The dictionary a live run returns.  \<open>clicked_at = None\<close> means that the key is absent;
  \<open>Some p\<close> is the key with the value \<open>p\<close>.
\<close>

record run_result =
  status :: py_str
  message :: py_str
  clicked_at :: "(int \<times> int) option option"

definition run_live_mode ::
  "'img world \<Rightarrow> 'img florence \<Rightarrow> json \<Rightarrow> int \<Rightarrow> int \<Rightarrow> py_str \<Rightarrow> live_state \<Rightarrow>
   ((py_error + run_result) \<times> live_state) option" where
  "run_live_mode w fl grounding_caption interval max_poll_seconds output_dir s =
     (case poll_loop w fl grounding_caption output_dir interval max_poll_seconds (clock s) s of
        None \<Rightarrow> None
      | Some (Inl e, s1) \<Rightarrow> Some (Inl e, s1)
      | Some (Inr (button_found, click_position), s1) \<Rightarrow>
          if \<not> button_found then
            Some (Inr \<lparr>status = lit ''partial'', message = MSG_TIME_LIMIT, clicked_at = None\<rparr>, s1)
          else
            (case verify_skip_success w fl grounding_caption (skip_ad_action w click_position s1) of
               ((st, msg), s3) \<Rightarrow>
                 Some (Inr \<lparr>status = st, message = msg, clicked_at = Some click_position\<rparr>, s3)))"

text \<open>A run starts with no capture made, no click issued and nothing written.\<close>

definition initial_state :: "real \<Rightarrow> live_state" where
  "initial_state now = \<lparr>clock = now, captures = 0, clicks = [], snapshots = []\<rparr>"

section \<open>The entry point\<close>

datatype run_mode = Test | Live

text \<open>The parsed command line.\<close>

record args =
  mode :: run_mode
  test_dir :: "py_str option"
  output_dir :: py_str
  interval :: int
  max_poll_seconds :: int

text \<open>What a run of \<^verbatim>\<open>main\<close> does that can be seen from outside, in order.\<close>

datatype event =
    LoadModel
  | LoadProcessor
  | Clicked "int \<times> int"
  | PrintTest "test_record list"
  | PrintLive run_result

record outcome =
  exit_code :: nat
  events :: "event list"

text \<open>
  \<^verbatim>\<open>main\<close> from the call of \<^verbatim>\<open>load_settings\<close> on, for a command line that \<^verbatim>\<open>argparse\<close> has
  accepted.  \<^verbatim>\<open>sys.exit(1)\<close> inside the \<^verbatim>\<open>try\<close> passes the \<^verbatim>\<open>except Exception\<close> clause;
  an exception of a mode is caught there and ends in \<^verbatim>\<open>sys.exit(1)\<close>.  When a
  \<^verbatim>\<open>from_pretrained\<close> call raises, the \<^verbatim>\<open>del\<close> of the \<^verbatim>\<open>finally\<close> clause raises in turn
  and the interpreter ends with code 1 as well.  \<open>now\<close> is the wall clock when live mode
  starts.
\<close>

definition main :: "'img world \<Rightarrow> args \<Rightarrow> real \<Rightarrow> outcome option" where
  "main w a now =
     (case load_settings (settings_files w) (lit ''settings.json'') of
        None \<Rightarrow> Some \<lparr>exit_code = 1, events = []\<rparr>
      | Some settings \<Rightarrow>
          (case settings of
             JObj kvs \<Rightarrow>
               let grounding_caption = dict_get kvs (lit ''grounding_caption'') in
               if \<not> model_loads w then Some \<lparr>exit_code = 1, events = [LoadModel]\<rparr>
               else if \<not> processor_loads w then
                 Some \<lparr>exit_code = 1, events = [LoadModel, LoadProcessor]\<rparr>
               else
                 (case mode a of
                    Test \<Rightarrow>
                      (case test_dir a of
                         None \<Rightarrow> Some \<lparr>exit_code = 1, events = [LoadModel, LoadProcessor]\<rparr>
                       | Some dir \<Rightarrow>
                           if dir = [] then
                             Some \<lparr>exit_code = 1, events = [LoadModel, LoadProcessor]\<rparr>
                           else
                             (case run_test_mode w (pretrained w) grounding_caption dir
                                     (output_dir a) of
                                Inl e \<Rightarrow>
                                  Some \<lparr>exit_code = 1, events = [LoadModel, LoadProcessor]\<rparr>
                              | Inr r \<Rightarrow>
                                  Some \<lparr>exit_code = 0,
                                        events = [LoadModel, LoadProcessor, PrintTest (results r)]\<rparr>))
                  | Live \<Rightarrow>
                      (case run_live_mode w (pretrained w) grounding_caption (interval a)
                              (max_poll_seconds a) (output_dir a) (initial_state now) of
                         None \<Rightarrow> None
                       | Some (Inl e, s) \<Rightarrow>
                           Some \<lparr>exit_code = 1,
                                 events = [LoadModel, LoadProcessor] @ map Clicked (clicks s)\<rparr>
                       | Some (Inr r, s) \<Rightarrow>
                           Some \<lparr>exit_code = 0,
                                 events = [LoadModel, LoadProcessor] @ map Clicked (clicks s) @
                                          [PrintLive r]\<rparr>))
           | _ \<Rightarrow> Some \<lparr>exit_code = 1, events = []\<rparr>))"

section \<open>The filter as the specification words it\<close>


text \<open>The midpoint of a box, each coordinate rounded toward zero.\<close>

definition midpoint :: "bbox \<Rightarrow> int \<times> int" where
  "midpoint box = (int_half (box ! 0 + box ! 2), int_half (box ! 1 + box ! 3))"


text \<open>
  The caption occurs in the label as a case-insensitive substring: the caption read as a
  regular expression in which an ASCII letter stands for both of its cases.
\<close>

definition both_cases :: "nat \<Rightarrow> nat list" where
  "both_cases c =
     (if 65 \<le> c \<and> c \<le> 90 then [c, c + 32]
      else if 97 \<le> c \<and> c \<le> 122 then [c, c - 32]
      else [c])"

definition contains_caption :: "py_str \<Rightarrow> py_str \<Rightarrow> bool" where
  "contains_caption caption label \<longleftrightarrow> re_search (map both_cases caption) label"

section \<open>Grounding outputs and environments used as examples\<close>

text \<open>A grounding call that answers \<open>r\<close> whatever the prompt and the image are.\<close>

definition const_florence :: "grounding_result option \<Rightarrow> 'img florence" where
  "const_florence r = (\<lambda>prompt img image_size. Inr r)"

text \<open>A grounding call that raises \<open>e\<close>.\<close>

definition failing_florence :: "py_error \<Rightarrow> 'img florence" where
  "failing_florence e = (\<lambda>prompt img image_size. Inl e)"

text \<open>A parsed output with a single small box labelled \<^verbatim>\<open>Skip Ad\<close>.\<close>

definition skip_box :: "grounding_result option" where
  "skip_box = Some \<lparr>bboxes = Some [[10, 20, 31, 41]], labels = Some [lit ''Skip Ad'']\<rparr>"

text \<open>
  A parsed output with three pairs: a label without the pattern, a matching label on a box
  of area 60000, and a matching label on a small box.
\<close>

definition three_pairs :: "grounding_result option" where
  "three_pairs =
     Some \<lparr>bboxes = Some [[0, 0, 5, 5], [0, 0, 300, 200], [10, 20, 31, 41]],
           labels = Some [lit ''Close'', lit ''Skip Ad'', lit '' skip '']\<rparr>"

text \<open>A parsed output whose only box has two entries.\<close>

definition short_box :: "grounding_result option" where
  "short_box = Some \<lparr>bboxes = Some [[1, 2]], labels = Some [lit ''Skip'']\<rparr>"

text \<open>
  Images are numbered.  The skip button is on the image with number \<open>n\<close> and on no
  other.
\<close>

definition button_on_frame :: "nat \<Rightarrow> nat florence" where
  "button_on_frame n = (\<lambda>prompt img image_size. if img = n then Inr skip_box else Inr None)"

text \<open>The skip button is on image 0; on every other image the grounding call raises.\<close>

definition button_then_failure :: "nat florence" where
  "button_then_failure =
     (\<lambda>prompt img image_size. if img = 0 then Inr skip_box else Inl ExternalError)"

text \<open>
  An environment with a valid settings file, three image files in the directory
  \<^verbatim>\<open>shots\<close> (the images 1, 0 and 1), a screen whose \<open>k\<close>-th capture is the image \<open>k\<close>, and
  captures and detections that take \<open>d\<close> seconds each.
\<close>

definition example_world :: "real \<Rightarrow> nat world" where
  "example_world d =
     \<lparr>settings_files =
        (\<lambda>path. if path = lit ''settings.json''
                then Contents (JObj [(lit ''grounding_caption'', JStr (lit ''Skip''))])
                else Missing),
      model_loads = True,
      processor_loads = True,
      pretrained = button_on_frame 1,
      glob =
        (\<lambda>pattern. if pattern = lit ''shots/*.png'' then [lit ''shots/a.png'', lit ''shots/b.png'']
                   else if pattern = lit ''shots/*.jpg'' then [lit ''shots/c.jpg'']
                   else []),
      open_image =
        (\<lambda>path. if path = lit ''shots/a.png'' then Inr (1, (1920, 1080))
                else if path = lit ''shots/b.png'' then Inr (0, (1920, 1080))
                else if path = lit ''shots/c.jpg'' then Inr (1, (1920, 1080))
                else Inl OSError),
      screen = (\<lambda>k. (k, (1920, 1080))),
      busy = (\<lambda>k. d),
      timestamp = (\<lambda>k. lit ''20250101_120000''),
      click_time = 0\<rparr>"

text \<open>The same environment without a settings file.\<close>

definition no_settings_world :: "nat world" where
  "no_settings_world = (example_world 0)\<lparr>settings_files := (\<lambda>path. Missing)\<rparr>"

text \<open>The command line without options.\<close>

definition default_args :: args where
  "default_args =
     \<lparr>mode = Live, test_dir = None, output_dir = lit ''test_outputs'', interval = 3,
      max_poll_seconds = 30\<rparr>"

section \<open>Matching and trimming\<close>

lemma and_then_Inr_iff: "and_then m f = Inr y \<longleftrightarrow> (\<exists>x. m = Inr x \<and> f x = Inr y)"
  by (cases m) (simp_all add: and_then_def)

lemma and_then_Inr [simp]: "and_then (Inr x) f = f x"
  by (simp add: and_then_def)

lemma and_then_Inl [simp]: "and_then (Inl e) f = Inl e"
  by (simp add: and_then_def)

lemma match_here_iff:
  "match_here r s \<longleftrightarrow> (\<exists>mid post. s = mid @ post \<and> list_all2 lit_matches r mid)"
proof (induction r s rule: match_here.induct)
  case (1 s)
  then show ?case by simp
next
  case (2 cl r)
  then show ?case by simp
next
  case (3 cl r c s)
  show ?case
  proof
    assume "match_here (cl # r) (c # s)"
    then have c: "c \<in> set cl" and "match_here r s" by simp_all
    with 3 obtain mid post where "s = mid @ post" "list_all2 lit_matches r mid" by blast
    with c have "c # s = (c # mid) @ post \<and> list_all2 lit_matches (cl # r) (c # mid)"
      by (simp add: lit_matches_def)
    then show "\<exists>mid post. c # s = mid @ post \<and> list_all2 lit_matches (cl # r) mid" by blast
  next
    assume "\<exists>mid post. c # s = mid @ post \<and> list_all2 lit_matches (cl # r) mid"
    then obtain mid post where *: "c # s = mid @ post" "list_all2 lit_matches (cl # r) mid" by blast
    then obtain m ms where mid: "mid = m # ms" "lit_matches cl m" "list_all2 lit_matches r ms"
      by (auto simp: list_all2_Cons1)
    with * have "m = c" "s = ms @ post" by simp_all
    from mid(3) \<open>s = ms @ post\<close> 3 have "match_here r s" by blast
    with mid(2) \<open>m = c\<close> show "match_here (cl # r) (c # s)" by (simp add: lit_matches_def)
  qed
qed

lemma re_search_iff:
  "re_search r s \<longleftrightarrow> (\<exists>pre mid post. s = pre @ mid @ post \<and> list_all2 lit_matches r mid)"
proof (induction s)
  case Nil
  then show ?case by (auto simp: match_here_iff)
next
  case (Cons c s)
  show ?case
  proof
    assume "re_search r (c # s)"
    then consider "match_here r (c # s)" | "re_search r s" by auto
    then show "\<exists>pre mid post. c # s = pre @ mid @ post \<and> list_all2 lit_matches r mid"
    proof cases
      case 1
      then obtain mid post where "c # s = [] @ mid @ post" "list_all2 lit_matches r mid"
        by (auto simp: match_here_iff)
      then show ?thesis by blast
    next
      case 2
      with Cons obtain pre mid post where "s = pre @ mid @ post" "list_all2 lit_matches r mid"
        by blast
      then have "c # s = (c # pre) @ mid @ post" by simp
      with \<open>list_all2 lit_matches r mid\<close> show ?thesis by blast
    qed
  next
    assume "\<exists>pre mid post. c # s = pre @ mid @ post \<and> list_all2 lit_matches r mid"
    then obtain pre mid post where *: "c # s = pre @ mid @ post" "list_all2 lit_matches r mid"
      by blast
    show "re_search r (c # s)"
    proof (cases pre)
      case Nil
      with * have "match_here r (c # s)" by (auto simp: match_here_iff)
      then show ?thesis by simp
    next
      case (Cons p ps)
      with * have "s = ps @ mid @ post" by simp
      with * Cons.IH have "re_search r s" by blast
      then show ?thesis by simp
    qed
  qed
qed

lemma re_search_rev: "re_search (rev r) (rev s) = re_search r s"
proof -
  have "re_search r' (rev s') \<Longrightarrow> re_search (rev r') s'" for r' s'
  proof -
    assume "re_search r' (rev s')"
    then obtain pre mid post where *: "rev s' = pre @ mid @ post" "list_all2 lit_matches r' mid"
      by (auto simp: re_search_iff)
    then have "s' = rev post @ rev mid @ rev pre"
      by (metis append.assoc rev_append rev_rev_ident)
    moreover from * have "list_all2 lit_matches (rev r') (rev mid)" by simp
    ultimately show "re_search (rev r') s'" unfolding re_search_iff by blast
  qed
  from this[of "rev r" s] this[of r "rev s"] show ?thesis by auto
qed

lemma re_search_dropWhile:
  assumes "\<forall>c\<in>set cl. \<not> P c"
  shows "re_search (cl # r) (dropWhile P s) = re_search (cl # r) s"
  using assms by (induction s) auto

lemma re_search_strip_gen:
  assumes "r \<noteq> []" "\<forall>c\<in>set (hd r). \<not> isspace c" "\<forall>c\<in>set (last r). \<not> isspace c"
  shows "re_search r (strip s) = re_search r s"
proof -
  obtain cl r1 where r: "r = cl # r1"
    using assms(1) by (cases r) simp_all
  have cl: "\<forall>c\<in>set cl. \<not> isspace c"
    using assms(2) r by simp
  have "rev r \<noteq> []"
    using assms(1) by simp
  then obtain cl2 r2 where r2: "rev r = cl2 # r2"
    by (cases "rev r") simp_all
  have "hd (rev r) = last r"
    by (simp add: hd_rev)
  then have cl2: "\<forall>c\<in>set cl2. \<not> isspace c"
    using assms(3) r2 by simp
  let ?t = "dropWhile isspace s"
  have "re_search r (strip s) = re_search (rev r) (dropWhile isspace (rev ?t))"
    using re_search_rev [of "rev r" "dropWhile isspace (rev ?t)"]
    by (simp add: strip_def)
  also have "\<dots> = re_search (rev r) (rev ?t)"
    unfolding r2 by (rule re_search_dropWhile [OF cl2])
  also have "\<dots> = re_search r ?t"
    by (rule re_search_rev)
  also have "\<dots> = re_search r s"
    unfolding r by (rule re_search_dropWhile [OF cl])
  finally show ?thesis .
qed

lemma re_search_skip_strip: "re_search SKIP_REGEX (strip label) = re_search SKIP_REGEX label"
proof (rule re_search_strip_gen)
  show "SKIP_REGEX \<noteq> []" by (simp add: SKIP_REGEX_def)
  have "hd SKIP_REGEX = [115, 83, 383]" by (simp add: SKIP_REGEX_def)
  then show "\<forall>c\<in>set (hd SKIP_REGEX). \<not> isspace c" by (simp add: isspace_def)
  have "last SKIP_REGEX = [112, 80]" by (simp add: SKIP_REGEX_def)
  then show "\<forall>c\<in>set (last SKIP_REGEX). \<not> isspace c" by (simp add: isspace_def)
qed


section \<open>The detection filter\<close>

lemma int_half_nonneg: "0 \<le> s \<Longrightarrow> int_half s = s div 2"
  by (simp add: int_half_def)

lemma py_index_Inr_iff: "py_index xs i = Inr x \<longleftrightarrow> i < length xs \<and> x = xs ! i"
  by (auto simp: py_index_def)

lemma bbox_area_Inr_iff:
  "bbox_area box = Inr a \<longleftrightarrow>
     4 \<le> length box \<and> a = (box ! 2 - box ! 0) * (box ! 3 - box ! 1)"
  by (auto simp: bbox_area_def and_then_Inr_iff py_index_Inr_iff)

lemma bbox_center_Inr_iff:
  "bbox_center box = Inr c \<longleftrightarrow> 4 \<le> length box \<and> c = midpoint box"
  by (auto simp: bbox_center_def midpoint_def and_then_Inr_iff py_index_Inr_iff)

lemma scan_patterns_Some:
  assumes "scan_patterns pats box l = Inr (Some d)"
  shows "d = (Some (midpoint box), Some box) \<and> 4 \<le> length box \<and>
         (box ! 2 - box ! 0) * (box ! 3 - box ! 1) \<le> MAX_BBOX_AREA \<and>
         (\<exists>p\<in>set pats. re_search p l)"
  using assms
proof (induction pats)
  case Nil
  then show ?case by simp
next
  case (Cons p pats)
  show ?case
  proof (cases "re_search p l")
    case False
    with Cons show ?thesis by simp
  next
    case True
    with Cons.prems obtain a where a: "bbox_area box = Inr a"
      and rest: "(if a > MAX_BBOX_AREA then scan_patterns pats box l
                  else and_then (bbox_center box) (\<lambda>center. Inr (Some (Some center, Some box))))
                 = Inr (Some d)"
      by (auto simp: and_then_Inr_iff)
    show ?thesis
    proof (cases "a > MAX_BBOX_AREA")
      case True
      with rest Cons.IH show ?thesis by simp
    next
      case False
      with rest obtain c where "bbox_center box = Inr c" "d = (Some c, Some box)"
        by (auto simp: and_then_Inr_iff)
      with a False \<open>re_search p l\<close> show ?thesis
        by (auto simp: bbox_area_Inr_iff bbox_center_Inr_iff)
    qed
  qed
qed

lemma scan_pairs_Some:
  assumes "scan_pairs ps = Inr (pos, Some box)"
  shows "\<exists>label. (box, label) \<in> set ps \<and> (\<exists>p\<in>set SKIP_AD_PATTERNS. re_search p (strip label)) \<and>
           4 \<le> length box \<and> (box ! 2 - box ! 0) * (box ! 3 - box ! 1) \<le> MAX_BBOX_AREA \<and>
           pos = Some (midpoint box)"
  using assms
proof (induction ps)
  case Nil
  then show ?case by simp
next
  case (Cons p ps)
  obtain b l where p: "p = (b, l)" by (cases p)
  from Cons.prems p obtain r where r: "scan_patterns SKIP_AD_PATTERNS b (strip l) = Inr r"
    and rest: "(case r of Some d \<Rightarrow> Inr d | None \<Rightarrow> scan_pairs ps) = Inr (pos, Some box)"
    by (auto simp: and_then_Inr_iff)
  show ?case
  proof (cases r)
    case None
    with rest Cons.IH show ?thesis by auto
  next
    case (Some d)
    with rest have d: "d = (pos, Some box)" by simp
    from scan_patterns_Some [OF r [unfolded Some]] d p show ?thesis by auto
  qed
qed

lemma scan_pairs_shape:
  assumes "scan_pairs ps = Inr d"
  shows "d = (None, None) \<or> (\<exists>c b. d = (Some c, Some b))"
  using assms
proof (induction ps)
  case Nil
  then show ?case by simp
next
  case (Cons p ps)
  obtain b l where p: "p = (b, l)" by (cases p)
  from Cons.prems p obtain r where r: "scan_patterns SKIP_AD_PATTERNS b (strip l) = Inr r"
    and rest: "(case r of Some d' \<Rightarrow> Inr d' | None \<Rightarrow> scan_pairs ps) = Inr d"
    by (auto simp: and_then_Inr_iff)
  show ?case
  proof (cases r)
    case None
    with rest Cons.IH show ?thesis by simp
  next
    case (Some d')
    with rest scan_patterns_Some [OF r [unfolded Some]] show ?thesis by auto
  qed
qed

lemma detect_Some_iff:
  "detect_skip_button fl cap img sz = (pos, Some box) \<longleftrightarrow>
     (\<exists>caption parsed. cap = JStr caption \<and> fl (GROUNDING_TASK @ caption) img sz = Inr parsed \<and>
        scan_pairs (grounding_pairs parsed) = Inr (pos, Some box))"
  by (cases cap)
     (auto simp: detect_skip_button_def detect_try_def and_then_def split: sum.splits)

lemma detect_str:
  assumes "fl (GROUNDING_TASK @ caption) img sz = Inr parsed"
  shows "detect_skip_button fl (JStr caption) img sz =
           (case scan_pairs (grounding_pairs parsed) of Inl e \<Rightarrow> (None, None) | Inr d \<Rightarrow> d)"
  using assms by (simp add: detect_skip_button_def detect_try_def)

lemma scan_pairs_Cons:
  "scan_pairs ((box, label) # rest) =
     (if re_search SKIP_REGEX label then
        (case bbox_area box of
           Inl e \<Rightarrow> Inl e
         | Inr a \<Rightarrow>
             if a > MAX_BBOX_AREA then scan_pairs rest
             else (case bbox_center box of
                     Inl e \<Rightarrow> Inl e
                   | Inr c \<Rightarrow> Inr (Some c, Some box)))
      else scan_pairs rest)"
  by (simp add: SKIP_AD_PATTERNS_def re_search_skip_strip and_then_def split: sum.splits)

lemma bbox_area_four: "bbox_area [x1, y1, x2, y2] = Inr ((x2 - x1) * (y2 - y1))"
  by (simp add: bbox_area_def py_index_def)

lemma bbox_center_four:
  "bbox_center [x1, y1, x2, y2] = Inr (int_half (x1 + x2), int_half (y1 + y2))"
  by (simp add: bbox_center_def py_index_def)

lemma detect_const_florence:
  "detect_skip_button (const_florence r) (JStr caption) img sz =
     (case scan_pairs (grounding_pairs r) of Inl e \<Rightarrow> (None, None) | Inr d \<Rightarrow> d)"
  by (rule detect_str) (simp add: const_florence_def)

lemma label_Close: "\<not> re_search SKIP_REGEX (lit ''Close'')"
  by (simp add: SKIP_REGEX_def lit_def)

lemma label_Skip_Ad: "re_search SKIP_REGEX (lit ''Skip Ad'')"
  by (simp add: SKIP_REGEX_def lit_def)


lemma label_Skip: "re_search SKIP_REGEX (lit ''Skip'')"
  by (simp add: SKIP_REGEX_def lit_def)

lemma grounding_pairs_three_pairs:
  "grounding_pairs three_pairs =
     [([0, 0, 5, 5], lit ''Close''), ([0, 0, 300, 200], lit ''Skip Ad''),
      ([10, 20, 31, 41], lit '' skip '')]"
  by (simp add: grounding_pairs_def three_pairs_def)

lemma grounding_pairs_skip_box:
  "grounding_pairs skip_box = [([10, 20, 31, 41], lit ''Skip Ad'')]"
  by (simp add: grounding_pairs_def skip_box_def)

lemma grounding_pairs_short_box:
  "grounding_pairs short_box = [([1, 2], lit ''Skip'')]"
  by (simp add: grounding_pairs_def short_box_def)

lemma grounding_pairs_None: "grounding_pairs None = []"
  by (simp add: grounding_pairs_def)


lemma scan_skip_box:
  "scan_pairs (grounding_pairs skip_box) = Inr (Some (20, 30), Some [10, 20, 31, 41])"
  by (simp add: grounding_pairs_skip_box scan_pairs_Cons label_Skip_Ad
      bbox_area_four bbox_center_four MAX_BBOX_AREA_def int_half_def
      del: scan_pairs.simps(2))

lemma scan_short_box: "scan_pairs (grounding_pairs short_box) = Inl IndexError"
  by (simp add: grounding_pairs_short_box scan_pairs_Cons label_Skip bbox_area_def py_index_def
      del: scan_pairs.simps(2))


lemma detect_skip_box:
  "detect_skip_button (const_florence skip_box) (JStr caption) img sz =
     (Some (20, 30), Some [10, 20, 31, 41])"
  by (simp add: detect_const_florence scan_skip_box)

lemma detect_None:
  "detect_skip_button (const_florence None) (JStr caption) img sz = (None, None)"
  by (simp add: detect_const_florence grounding_pairs_None)

lemma selected_box_matches_and_fits_aux:
  assumes "detect_skip_button fl cap img sz = (pos, Some box)"
  shows "\<exists>caption parsed label.
           cap = JStr caption \<and> fl (GROUNDING_TASK @ caption) img sz = Inr parsed \<and>
           (box, label) \<in> set (grounding_pairs parsed) \<and>
           (\<exists>pattern\<in>set SKIP_AD_PATTERNS. re_search pattern (strip label)) \<and>
           4 \<le> length box \<and> (box ! 2 - box ! 0) * (box ! 3 - box ! 1) \<le> MAX_BBOX_AREA \<and>
           pos = Some (midpoint box)"
proof -
  from assms obtain caption parsed where c: "cap = JStr caption"
    and f: "fl (GROUNDING_TASK @ caption) img sz = Inr parsed"
    and s: "scan_pairs (grounding_pairs parsed) = Inr (pos, Some box)"
    unfolding detect_Some_iff by blast
  from scan_pairs_Some [OF s] c f show ?thesis
    by blast
qed



text \<open>
  C2 as stated fails.  With the caption \<^verbatim>\<open>Skip Ad button\<close> in the settings, the grounding
  output pairs a box with the phrase \<^verbatim>\<open>Skip Ad\<close>.  The caption does not occur in that label,
  and the box is selected: the label is tested against \<open>SKIP_AD_PATTERNS\<close>, the caption
  only forms the prompt.
\<close>

theorem caption_not_in_label_counterexample:
  "\<not> contains_caption (lit ''Skip Ad button'') (lit ''Skip Ad'') \<and>
   grounding_pairs skip_box = [([10, 20, 31, 41], lit ''Skip Ad'')] \<and>
   detect_skip_button (const_florence skip_box) (JStr (lit ''Skip Ad button'')) (0::nat)
     (1920, 1080) =
     (Some (20, 30), Some [10, 20, 31, 41])"
proof -
  have "\<not> contains_caption (lit ''Skip Ad button'') (lit ''Skip Ad'')"
    by (simp add: contains_caption_def both_cases_def lit_def)
  then show ?thesis
    by (simp add: grounding_pairs_skip_box detect_skip_box)
qed

text \<open>
  C2, amended.  A box is not selected when no label paired with it contains the fixed
  pattern \<^verbatim>\<open>skip\<close> (case-insensitively, before or after trimming), whatever the caption of
  the settings is.
\<close>

theorem label_without_skip_not_selected:
  assumes "fl (GROUNDING_TASK @ caption) img sz = Inr parsed"
    and "\<forall>label. (box, label) \<in> set (grounding_pairs parsed) \<longrightarrow> \<not> re_search SKIP_REGEX label"
  shows "snd (detect_skip_button fl (JStr caption) img sz) \<noteq> Some box"
proof
  assume "snd (detect_skip_button fl (JStr caption) img sz) = Some box"
  then obtain pos where "detect_skip_button fl (JStr caption) img sz = (pos, Some box)"
    by (cases "detect_skip_button fl (JStr caption) img sz") simp
  from selected_box_matches_and_fits_aux [OF this] assms(1)
  obtain label where "(box, label) \<in> set (grounding_pairs parsed)"
    and "re_search SKIP_REGEX (strip label)"
    by (auto simp: SKIP_AD_PATTERNS_def)
  with assms(2) show False
    by (simp add: re_search_skip_strip)
qed

theorem label_without_skip_not_selected_witness:
  "const_florence three_pairs (GROUNDING_TASK @ lit ''Skip'') (0::nat) (1920, 1080) = Inr three_pairs \<and>
   filter (\<lambda>p. fst p = [0, 0, 5, 5]) (grounding_pairs three_pairs) = [([0, 0, 5, 5], lit ''Close'')] \<and>
   \<not> re_search SKIP_REGEX (lit ''Close'') \<and>
   snd (detect_skip_button (const_florence three_pairs) (JStr (lit ''Skip'')) (0::nat) (1920, 1080))
     \<noteq> Some [0, 0, 5, 5]"
proof -
  have f: "const_florence three_pairs (GROUNDING_TASK @ lit ''Skip'') (0::nat) (1920, 1080) =
             Inr three_pairs"
    by (simp add: const_florence_def)
  have l: "\<forall>label. ([0, 0, 5, 5], label) \<in> set (grounding_pairs three_pairs) \<longrightarrow>
             \<not> re_search SKIP_REGEX label"
    by (simp add: grounding_pairs_three_pairs label_Close)
  have p: "filter (\<lambda>p. fst p = [0, 0, 5, 5]) (grounding_pairs three_pairs) =
             [([0, 0, 5, 5], lit ''Close'')]"
    by (simp add: grounding_pairs_three_pairs)
  from f l
    label_without_skip_not_selected
      [of "const_florence three_pairs" "lit ''Skip''" 0 "(1920, 1080)" three_pairs "[0, 0, 5, 5]"]
  have "snd (detect_skip_button (const_florence three_pairs) (JStr (lit ''Skip'')) (0::nat)
               (1920, 1080)) \<noteq> Some [0, 0, 5, 5]"
    by blast
  with f p label_Close show ?thesis
    by simp
qed




text \<open>
  C4.  Whatever exception the body of the detection call raises (the grounding call
  failing, a caption that is not a string, a box that cannot be indexed), the call returns
  \<^verbatim>\<open>(None, None)\<close>; in every case its result is \<^verbatim>\<open>(None, None)\<close> or a pair of a centre and
  a box.
\<close>

theorem detect_failure_is_no_detection:
  "(detect_try fl cap img sz = Inl e \<longrightarrow> detect_skip_button fl cap img sz = (None, None)) \<and>
   (fl (GROUNDING_TASK @ caption) img sz = Inl e \<longrightarrow>
      detect_skip_button fl (JStr caption) img sz = (None, None)) \<and>
   (detect_skip_button fl cap img sz = (None, None) \<or>
    (\<exists>c b. detect_skip_button fl cap img sz = (Some c, Some b)))"
proof (intro conjI impI)
  assume "detect_try fl cap img sz = Inl e"
  then show "detect_skip_button fl cap img sz = (None, None)"
    by (simp add: detect_skip_button_def)
next
  assume "fl (GROUNDING_TASK @ caption) img sz = Inl e"
  then show "detect_skip_button fl (JStr caption) img sz = (None, None)"
    by (simp add: detect_skip_button_def detect_try_def)
next
  show "detect_skip_button fl cap img sz = (None, None) \<or>
        (\<exists>c b. detect_skip_button fl cap img sz = (Some c, Some b))"
  proof (cases "detect_try fl cap img sz")
    case (Inl e')
    then show ?thesis by (simp add: detect_skip_button_def)
  next
    case (Inr d)
    then obtain parsed where "scan_pairs (grounding_pairs parsed) = Inr d"
      by (cases cap) (auto simp: detect_try_def and_then_Inr_iff)
    from scan_pairs_shape [OF this] Inr show ?thesis
      by (simp add: detect_skip_button_def)
  qed
qed

theorem detect_failure_is_no_detection_witness:
  "detect_try (const_florence short_box) (JStr (lit ''Skip'')) (0::nat) (1920, 1080) = Inl IndexError \<and>
   detect_skip_button (const_florence short_box) (JStr (lit ''Skip'')) (0::nat) (1920, 1080) =
     (None, None) \<and>
   failing_florence ExternalError (GROUNDING_TASK @ lit ''Skip'') (0::nat) (1920, 1080) =
     Inl ExternalError \<and>
   detect_skip_button (failing_florence ExternalError) (JStr (lit ''Skip'')) (0::nat) (1920, 1080) =
     (None, None)"
proof -
  have t: "detect_try (const_florence short_box) (JStr (lit ''Skip'')) (0::nat) (1920, 1080) =
             Inl IndexError"
    by (simp add: detect_try_def const_florence_def scan_short_box)
  have f: "failing_florence ExternalError (GROUNDING_TASK @ lit ''Skip'') (0::nat) (1920, 1080) =
             Inl ExternalError"
    by (simp add: failing_florence_def)
  from t f
    detect_failure_is_no_detection [of "const_florence short_box" "JStr (lit ''Skip'')" 0
      "(1920, 1080)" IndexError "lit ''Skip''"]
    detect_failure_is_no_detection [of "failing_florence ExternalError" "JStr (lit ''Skip'')" 0
      "(1920, 1080)" ExternalError "lit ''Skip''"]
  show ?thesis
    by blast
qed

section \<open>The polling loop\<close>


lemma capture_and_detect_eq:
  "capture_and_detect w fl cap s =
     (detect_at w fl cap (captures s),
      s\<lparr>clock := clock s + busy w (captures s), captures := Suc (captures s)\<rparr>)"
  by (simp add: capture_and_detect_def detect_at_def split: prod.splits)

lemma poll_loop_timeout:
  assumes "\<not> clock s - start < real_of_int mx"
  shows "poll_loop w fl cap out iv mx start s = Some (Inr (False, None), s)"
  using assms by (subst poll_loop.simps) simp

lemma poll_loop_found:
  assumes "clock s - start < real_of_int mx"
    and "detect_at w fl cap (captures s) = (pos, Some box)" "length box = 4"
  shows "poll_loop w fl cap out iv mx start s =
           Some (Inr (True, pos),
             s\<lparr>clock := clock s + busy w (captures s), captures := Suc (captures s),
               snapshots := snapshots s @
                 [(path_join out (lit ''detection_'' @ timestamp w (captures s) @ lit ''.png''), box)]\<rparr>)"
  using assms
  by (subst poll_loop.simps)
     (auto simp add: capture_and_detect_eq truthy_bbox_def draw_bbox_on_image_def)

lemma poll_loop_again:
  assumes "clock s - start < real_of_int mx"
    and "detect_at w fl cap (captures s) = (None, None)" "0 \<le> iv"
  shows "poll_loop w fl cap out iv mx start s =
           poll_loop w fl cap out iv mx start
             (s\<lparr>captures := Suc (captures s),
                clock := clock s + busy w (captures s) + real_of_int iv\<rparr>)"
  using assms
  by (subst poll_loop.simps)
     (simp add: capture_and_detect_eq truthy_bbox_def sleep_def)


lemma poll_loop_cases:
  assumes "poll_loop w fl cap out iv mx start s = Some y"
  obtains
    (timeout) "\<not> clock s - start < real_of_int mx" "y = (Inr (False, None), s)"
  | (found) pos box where "clock s - start < real_of_int mx"
      "detect_at w fl cap (captures s) = (pos, Some box)" "length box = 4"
      "y = (Inr (True, pos),
            s\<lparr>clock := clock s + busy w (captures s), captures := Suc (captures s),
              snapshots := snapshots s @
                [(path_join out (lit ''detection_'' @ timestamp w (captures s) @ lit ''.png''),
                  box)]\<rparr>)"
  | (bad_box) pos box where "clock s - start < real_of_int mx"
      "detect_at w fl cap (captures s) = (pos, Some box)" "box \<noteq> []" "length box \<noteq> 4"
      "y = (Inl ValueError,
            s\<lparr>clock := clock s + busy w (captures s), captures := Suc (captures s)\<rparr>)"
  | (bad_sleep) "clock s - start < real_of_int mx"
      "\<not> truthy_bbox (snd (detect_at w fl cap (captures s)))" "iv < 0"
      "y = (Inl ValueError,
            s\<lparr>clock := clock s + busy w (captures s), captures := Suc (captures s)\<rparr>)"
  | (again) "clock s - start < real_of_int mx"
      "\<not> truthy_bbox (snd (detect_at w fl cap (captures s)))" "0 \<le> iv"
      "poll_loop w fl cap out iv mx start
         (s\<lparr>captures := Suc (captures s),
            clock := clock s + busy w (captures s) + real_of_int iv\<rparr>) = Some y"
proof (cases "clock s - start < real_of_int mx")
  case False
  with assms have "y = (Inr (False, None), s)"
    by (simp add: poll_loop_timeout)
  with False show ?thesis by (rule timeout)
next
  case True
  obtain pos b where d: "detect_at w fl cap (captures s) = (pos, b)"
    by (cases "detect_at w fl cap (captures s)")
  show ?thesis
  proof (cases "truthy_bbox b")
    case t: True
    then obtain box where b: "b = Some box" "box \<noteq> []"
      by (auto simp: truthy_bbox_def split: option.splits)
    show ?thesis
    proof (cases "length box = 4")
      case True
      with assms \<open>clock s - start < real_of_int mx\<close> d b show ?thesis
        by (intro found [of pos box]) (simp_all add: poll_loop_found)
    next
      case False
      with assms \<open>clock s - start < real_of_int mx\<close> d b t have
        "y = (Inl ValueError,
              s\<lparr>clock := clock s + busy w (captures s), captures := Suc (captures s)\<rparr>)"
        by (subst (asm) poll_loop.simps)
           (simp add: capture_and_detect_eq draw_bbox_on_image_def)
      with False \<open>clock s - start < real_of_int mx\<close> d b show ?thesis
        by (intro bad_box [of pos box]) simp_all
    qed
  next
    case f: False
    show ?thesis
    proof (cases "iv < 0")
      case True
      with assms \<open>clock s - start < real_of_int mx\<close> d f have
        "y = (Inl ValueError,
              s\<lparr>clock := clock s + busy w (captures s), captures := Suc (captures s)\<rparr>)"
        by (subst (asm) poll_loop.simps) (simp add: capture_and_detect_eq sleep_def)
      with True \<open>clock s - start < real_of_int mx\<close> d f show ?thesis
        by (intro bad_sleep) simp_all
    next
      case False
      with assms \<open>clock s - start < real_of_int mx\<close> d f have
        "poll_loop w fl cap out iv mx start
           (s\<lparr>captures := Suc (captures s),
              clock := clock s + busy w (captures s) + real_of_int iv\<rparr>) = Some y"
        by (subst (asm) poll_loop.simps) (simp add: capture_and_detect_eq sleep_def)
      with False \<open>clock s - start < real_of_int mx\<close> d f show ?thesis
        by (intro again) simp_all
    qed
  qed
qed


lemma poll_loop_induct [consumes 1, case_names stop again]:
  assumes run: "poll_loop w fl cap out iv mx start s = Some y"
    and stop: "\<And>s y. poll_loop w fl cap out iv mx start s = Some y \<Longrightarrow>
        \<not> (clock s - start < real_of_int mx \<and>
           \<not> truthy_bbox (snd (detect_at w fl cap (captures s))) \<and> 0 \<le> iv) \<Longrightarrow> P s y"
    and again: "\<And>s y. clock s - start < real_of_int mx \<Longrightarrow>
        \<not> truthy_bbox (snd (detect_at w fl cap (captures s))) \<Longrightarrow> 0 \<le> iv \<Longrightarrow>
        poll_loop w fl cap out iv mx start
          (s\<lparr>captures := Suc (captures s),
             clock := clock s + busy w (captures s) + real_of_int iv\<rparr>) = Some y \<Longrightarrow>
        P (s\<lparr>captures := Suc (captures s),
             clock := clock s + busy w (captures s) + real_of_int iv\<rparr>) y \<Longrightarrow>
        P s y"
  shows "P s y"
proof -
  let ?Q = "\<lambda>w' fl' cap' out' iv' mx' start' s y.
      w' = w \<and> fl' = fl \<and> cap' = cap \<and> out' = out \<and> iv' = iv \<and> mx' = mx \<and> start' = start \<longrightarrow>
      poll_loop w fl cap out iv mx start s = Some y \<and> P s y"
  have "?Q w fl cap out iv mx start s y"
  proof (rule poll_loop.raw_induct [where P = ?Q, OF _ run], goal_cases)
    case (1 poll' w' fl' cap' out' iv' mx' start' s1 y1)
    show ?case
    proof (intro impI, elim conjE)
      assume eqs: "w' = w" "fl' = fl" "cap' = cap" "out' = out" "iv' = iv" "mx' = mx"
        "start' = start"
      note body = "1"(2) [unfolded eqs]
      have IH: "poll_loop w fl cap out iv mx start s2 = Some y2 \<and> P s2 y2"
        if "poll' w fl cap out iv mx start s2 = Some y2" for s2 y2
        using "1"(1) that by blast
      let ?next = "s1\<lparr>captures := Suc (captures s1),
                      clock := clock s1 + busy w (captures s1) + real_of_int iv\<rparr>"
      obtain pos b where d: "detect_at w fl cap (captures s1) = (pos, b)"
        by (cases "detect_at w fl cap (captures s1)")
      show "poll_loop w fl cap out iv mx start s1 = Some y1 \<and> P s1 y1"
      proof (cases "clock s1 - start < real_of_int mx \<and>
          \<not> truthy_bbox (snd (detect_at w fl cap (captures s1))) \<and> 0 \<le> iv")
        case True
        with body d have "poll' w fl cap out iv mx start ?next = Some y1"
          by (simp add: capture_and_detect_eq sleep_def)
        from IH [OF this] have r: "poll_loop w fl cap out iv mx start ?next = Some y1"
          and p: "P ?next y1"
          by simp_all
        from True d have "poll_loop w fl cap out iv mx start s1 =
            poll_loop w fl cap out iv mx start ?next"
          by (subst poll_loop.simps) (simp add: capture_and_detect_eq sleep_def)
        with r p True again [of s1 y1] show ?thesis
          by simp
      next
        case False
        with body d have "poll_loop w fl cap out iv mx start s1 = Some y1"
          by (subst poll_loop.simps)
             (auto simp add: capture_and_detect_eq sleep_def split: if_splits)
        with False stop [of s1 y1] show ?thesis
          by simp
      qed
    qed
  qed
  then show ?thesis by simp
qed


lemma poll_loop_not_truthy:
  assumes "clock s - start < real_of_int mx"
    and "\<not> truthy_bbox (snd (detect_at w fl cap (captures s)))" "0 \<le> iv"
  shows "poll_loop w fl cap out iv mx start s =
           poll_loop w fl cap out iv mx start
             (s\<lparr>captures := Suc (captures s),
                clock := clock s + busy w (captures s) + real_of_int iv\<rparr>)"
proof -
  obtain pos b where "detect_at w fl cap (captures s) = (pos, b)"
    by (cases "detect_at w fl cap (captures s)")
  with assms show ?thesis
    by (subst poll_loop.simps) (simp add: capture_and_detect_eq sleep_def)
qed


lemma poll_loop_clicks:
  assumes "poll_loop w fl cap out iv mx start s = Some (r, s')"
  shows "clicks s' = clicks s \<and> captures s \<le> captures s'"
  using assms
proof (induction s "(r, s')" rule: poll_loop_induct)
  case (stop s)
  from stop(1) show ?case
    by (cases rule: poll_loop_cases) (use stop(2) in auto)
next
  case (again s)
  then show ?case by simp
qed

lemma poll_loop_found_at:
  assumes "poll_loop w fl cap out iv mx start s = Some (Inr (True, pos), s')"
  shows "\<exists>k box. captures s \<le> k \<and> captures s' = Suc k \<and>
           detect_at w fl cap k = (pos, Some box) \<and> length box = 4 \<and>
           (\<forall>j. captures s \<le> j \<and> j < k \<longrightarrow> \<not> truthy_bbox (snd (detect_at w fl cap j)))"
  using assms
proof (induction s "(Inr (True, pos) :: py_error + bool \<times> (int \<times> int) option, s')"
    rule: poll_loop_induct)
  case (stop s)
  from stop(1) show ?case
  proof (cases rule: poll_loop_cases)
    case (found pos' box)
    then have "captures s \<le> captures s \<and> captures s' = Suc (captures s) \<and>
        detect_at w fl cap (captures s) = (pos, Some box) \<and> length box = 4 \<and>
        (\<forall>j. captures s \<le> j \<and> j < captures s \<longrightarrow>
           \<not> truthy_bbox (snd (detect_at w fl cap j)))"
      by auto
    then show ?thesis by blast
  qed (use stop(2) in auto)
next
  case (again s)
  then obtain k box where k: "Suc (captures s) \<le> k" "captures s' = Suc k"
    "detect_at w fl cap k = (pos, Some box)" "length box = 4"
    "\<forall>j. Suc (captures s) \<le> j \<and> j < k \<longrightarrow> \<not> truthy_bbox (snd (detect_at w fl cap j))"
    by auto
  have "\<not> truthy_bbox (snd (detect_at w fl cap j))" if "captures s \<le> j" "j < k" for j
  proof (cases "j = captures s")
    case True
    with again(2) show ?thesis by simp
  next
    case False
    with that k(5) show ?thesis by simp
  qed
  with k show ?case
    by (intro exI [of _ k] exI [of _ box]) simp
qed

lemma poll_loop_timed_out:
  assumes "poll_loop w fl cap out iv mx start s = Some (Inr (False, p), s')"
  shows "p = None \<and> \<not> clock s' - start < real_of_int mx \<and>
         (\<forall>j. captures s \<le> j \<and> j < captures s' \<longrightarrow> \<not> truthy_bbox (snd (detect_at w fl cap j)))"
  using assms
proof (induction s "(Inr (False, p) :: py_error + bool \<times> (int \<times> int) option, s')"
    rule: poll_loop_induct)
  case (stop s)
  from stop(1) show ?case
    by (cases rule: poll_loop_cases) (use stop(2) in auto)
next
  case (again s)
  then have *: "p = None" "\<not> clock s' - start < real_of_int mx"
    "\<forall>j. Suc (captures s) \<le> j \<and> j < captures s' \<longrightarrow>
       \<not> truthy_bbox (snd (detect_at w fl cap j))"
    by auto
  have "\<not> truthy_bbox (snd (detect_at w fl cap j))" if "captures s \<le> j" "j < captures s'" for j
  proof (cases "j = captures s")
    case True
    with again(2) show ?thesis by simp
  next
    case False
    with that *(3) show ?thesis by simp
  qed
  with * show ?case by simp
qed




section \<open>Live runs in the example environment\<close>

lemma example_world_simps:
  "screen (example_world d) k = (k, (1920, 1080))"
  "busy (example_world d) k = d"
  "click_time (example_world d) = 0"
  "timestamp (example_world d) k = lit ''20250101_120000''"
  by (simp_all add: example_world_def)

lemma snapshot_path:
  "path_join (lit ''live_outputs'') (lit ''detection_'' @ lit ''20250101_120000'' @ lit ''.png'') =
     lit ''live_outputs/detection_20250101_120000.png''"
  by (simp add: path_join_def lit_def)

lemma detect_at_button_on_frame:
  "detect_at (example_world d) (button_on_frame n) (JStr caption) k =
     (if k = n then (Some (20, 30), Some [10, 20, 31, 41]) else (None, None))"
  by (simp add: detect_at_def example_world_simps detect_skip_button_def detect_try_def
      button_on_frame_def scan_skip_box grounding_pairs_None)

lemma detect_try_button_then_failure:
  "detect_try button_then_failure (JStr caption) (Suc k) sz = Inl ExternalError"
  by (simp add: detect_try_def button_then_failure_def)


lemma detect_at_const:
  "detect_at w (const_florence r) (JStr caption) k =
     (case scan_pairs (grounding_pairs r) of Inl e \<Rightarrow> (None, None) | Inr d \<Rightarrow> d)"
  by (simp add: detect_at_def detect_const_florence)

lemma verify_skip_success_eq:
  "verify_skip_success w fl cap s =
     ((if snd (detect_at w fl cap (captures s)) = None then (lit ''success'', MSG_SKIPPED)
       else (lit ''partial'', MSG_STILL_PRESENT)),
      s\<lparr>clock := clock s + 2 + busy w (captures s), captures := Suc (captures s)\<rparr>)"
  by (cases "detect_at w fl cap (captures s)")
     (auto simp add: verify_skip_success_def capture_and_detect_eq Let_def)

lemma run_button_on_frame_1:
  "run_live_mode (example_world 0) (button_on_frame 1) (JStr (lit ''Skip'')) 3 30
     (lit ''live_outputs'') (initial_state 0) =
   Some (Inr \<lparr>status = lit ''success'', message = MSG_SKIPPED, clicked_at = Some (Some (20, 30))\<rparr>,
         \<lparr>clock = 5, captures = 3, clicks = [(20, 30)],
          snapshots = [(lit ''live_outputs/detection_20250101_120000.png'', [10, 20, 31, 41])]\<rparr>)"
proof -
  let ?w = "example_world 0" and ?fl = "button_on_frame 1" and ?cap = "JStr (lit ''Skip'')"
  let ?out = "lit ''live_outputs''"
  have "poll_loop ?w ?fl ?cap ?out 3 30 0 (initial_state 0) =
        poll_loop ?w ?fl ?cap ?out 3 30 0
          \<lparr>clock = 3, captures = 1, clicks = [], snapshots = []\<rparr>"
    by (subst poll_loop_not_truthy)
       (simp_all add: initial_state_def detect_at_button_on_frame truthy_bbox_def
          example_world_simps)
  also have "\<dots> = Some (Inr (True, Some (20, 30)),
      \<lparr>clock = 3, captures = 2, clicks = [],
       snapshots = [(lit ''live_outputs/detection_20250101_120000.png'', [10, 20, 31, 41])]\<rparr>)"
    by (subst poll_loop_found [where pos = "Some (20, 30)" and box = "[10, 20, 31, 41]"])
       (simp_all add: detect_at_button_on_frame example_world_simps snapshot_path)
  finally show ?thesis
    by (simp add: run_live_mode_def initial_state_def skip_ad_action_def verify_skip_success_eq
        detect_at_button_on_frame example_world_simps)
qed

lemma run_button_always:
  "run_live_mode (example_world 0) (const_florence skip_box) (JStr (lit ''Skip'')) 3 30
     (lit ''live_outputs'') (initial_state 0) =
   Some (Inr \<lparr>status = lit ''partial'', message = MSG_STILL_PRESENT,
               clicked_at = Some (Some (20, 30))\<rparr>,
         \<lparr>clock = 2, captures = 2, clicks = [(20, 30)],
          snapshots = [(lit ''live_outputs/detection_20250101_120000.png'', [10, 20, 31, 41])]\<rparr>)"
proof -
  let ?w = "example_world 0" and ?fl = "const_florence skip_box :: nat florence"
  let ?cap = "JStr (lit ''Skip'')" and ?out = "lit ''live_outputs''"
  have "poll_loop ?w ?fl ?cap ?out 3 30 0 (initial_state 0) =
      Some (Inr (True, Some (20, 30)),
        \<lparr>clock = 0, captures = 1, clicks = [],
         snapshots = [(lit ''live_outputs/detection_20250101_120000.png'', [10, 20, 31, 41])]\<rparr>)"
    by (subst poll_loop_found [where pos = "Some (20, 30)" and box = "[10, 20, 31, 41]"])
       (simp_all add: initial_state_def detect_at_const scan_skip_box example_world_simps
          snapshot_path)
  then show ?thesis
    by (simp add: run_live_mode_def initial_state_def skip_ad_action_def verify_skip_success_eq
        detect_at_const scan_skip_box example_world_simps)
qed


lemma poll_never_found:
  "poll_loop (example_world 10) (const_florence None) (JStr (lit ''Skip'')) (lit ''live_outputs'')
     3 30 0 (initial_state 0) =
   Some (Inr (False, None), \<lparr>clock = 39, captures = 3, clicks = [], snapshots = []\<rparr>)"
proof -
  let ?w = "example_world 10" and ?fl = "const_florence None :: nat florence"
  let ?cap = "JStr (lit ''Skip'')" and ?out = "lit ''live_outputs''"
  have none: "\<not> truthy_bbox (snd (detect_at ?w ?fl ?cap k))" for k
    by (simp add: detect_at_const grounding_pairs_None truthy_bbox_def)
  have "poll_loop ?w ?fl ?cap ?out 3 30 0 (initial_state 0) =
        poll_loop ?w ?fl ?cap ?out 3 30 0 \<lparr>clock = 13, captures = 1, clicks = [], snapshots = []\<rparr>"
    by (subst poll_loop_not_truthy) (simp_all add: initial_state_def none example_world_simps)
  also have "\<dots> =
        poll_loop ?w ?fl ?cap ?out 3 30 0 \<lparr>clock = 26, captures = 2, clicks = [], snapshots = []\<rparr>"
    by (subst poll_loop_not_truthy)
       (simp_all add: none example_world_simps numeral_2_eq_2 numeral_3_eq_3)
  also have "\<dots> =
        poll_loop ?w ?fl ?cap ?out 3 30 0 \<lparr>clock = 39, captures = 3, clicks = [], snapshots = []\<rparr>"
    by (subst poll_loop_not_truthy)
       (simp_all add: none example_world_simps numeral_2_eq_2 numeral_3_eq_3)
  also have "\<dots> = Some (Inr (False, None),
        \<lparr>clock = 39, captures = 3, clicks = [], snapshots = []\<rparr>)"
    by (subst poll_loop_timeout) simp_all
  finally show ?thesis .
qed

lemma run_never_found:
  "run_live_mode (example_world 10) (const_florence None) (JStr (lit ''Skip'')) 3 30
     (lit ''live_outputs'') (initial_state 0) =
   Some (Inr \<lparr>status = lit ''partial'', message = MSG_TIME_LIMIT, clicked_at = None\<rparr>,
         \<lparr>clock = 39, captures = 3, clicks = [], snapshots = []\<rparr>)"
  using poll_never_found by (simp add: run_live_mode_def initial_state_def)

section \<open>Live mode\<close>

lemma run_live_mode_cases:
  assumes "run_live_mode w fl cap iv mx out s = Some (r, s')"
  obtains
    (error) e where "poll_loop w fl cap out iv mx (clock s) s = Some (Inl e, s')" "r = Inl e"
  | (timed_out) p where "poll_loop w fl cap out iv mx (clock s) s = Some (Inr (False, p), s')"
      "r = Inr \<lparr>status = lit ''partial'', message = MSG_TIME_LIMIT, clicked_at = None\<rparr>"
  | (found) pos s1 where "poll_loop w fl cap out iv mx (clock s) s = Some (Inr (True, pos), s1)"
      "r = Inr \<lparr>status = fst (fst (verify_skip_success w fl cap (skip_ad_action w pos s1))),
                message = snd (fst (verify_skip_success w fl cap (skip_ad_action w pos s1))),
                clicked_at = Some pos\<rparr>"
      "s' = snd (verify_skip_success w fl cap (skip_ad_action w pos s1))"
proof (cases "poll_loop w fl cap out iv mx (clock s) s")
  case None
  with assms show ?thesis by (simp add: run_live_mode_def)
next
  case (Some y)
  obtain q s1 where y: "y = (q, s1)" by (cases y)
  show ?thesis
  proof (cases q)
    case (Inl e)
    with assms Some y show ?thesis
      by (intro error [of e]) (simp_all add: run_live_mode_def)
  next
    case (Inr bp)
    obtain b pos where bp: "bp = (b, pos)" by (cases bp)
    show ?thesis
    proof (cases b)
      case False
      with assms Some y Inr bp show ?thesis
        by (intro timed_out [of pos]) (simp_all add: run_live_mode_def)
    next
      case True
      with assms Some y Inr bp show ?thesis
        by (intro found [of pos s1]) (auto simp add: run_live_mode_def split: prod.splits)
    qed
  qed
qed

text \<open>
  C5.  A live run that returns has issued at most one click; a click it has issued is at
  the centre that the last poll detected (the capture before the one of the
  verification); and a run whose polling loop ended by timeout has issued none.
\<close>

theorem live_mode_clicks_at_most_once:
  assumes "run_live_mode w fl cap iv mx out (initial_state now) = Some (r, s')"
  shows "length (clicks s') \<le> 1 \<and>
         (\<forall>xy\<in>set (clicks s'). \<exists>k box.
            captures s' = Suc (Suc k) \<and> detect_at w fl cap k = (Some xy, Some box)) \<and>
         (\<forall>p s1. poll_loop w fl cap out iv mx now (initial_state now) = Some (Inr (False, p), s1) \<longrightarrow>
            clicks s' = [])"
  using assms
proof (cases rule: run_live_mode_cases)
  case (error e)
  from poll_loop_clicks [OF error(1)] error(1) show ?thesis
    by (simp add: initial_state_def)
next
  case (timed_out p)
  from poll_loop_clicks [OF timed_out(1)] show ?thesis
    by (simp add: initial_state_def)
next
  case (found pos s1)
  from poll_loop_clicks [OF found(1)] have c: "clicks s1 = []"
    by (simp add: initial_state_def)
  from poll_loop_found_at [OF found(1)] obtain k box where k: "captures s1 = Suc k"
    "detect_at w fl cap k = (pos, Some box)"
    by blast
  from k(2) have "detect_skip_button fl cap (fst (screen w k)) (snd (screen w k)) = (pos, Some box)"
    by (simp add: detect_at_def)
  from selected_box_matches_and_fits_aux [OF this] have pos: "pos = Some (midpoint box)"
    by blast
  with c k found(1,3) show ?thesis
    by (simp add: verify_skip_success_eq skip_ad_action_def initial_state_def)
qed

theorem live_mode_clicks_at_most_once_witness:
  "run_live_mode (example_world 0) (button_on_frame 1) (JStr (lit ''Skip'')) 3 30
     (lit ''live_outputs'') (initial_state 0) =
   Some (Inr \<lparr>status = lit ''success'', message = MSG_SKIPPED, clicked_at = Some (Some (20, 30))\<rparr>,
         \<lparr>clock = 5, captures = 3, clicks = [(20, 30)],
          snapshots = [(lit ''live_outputs/detection_20250101_120000.png'', [10, 20, 31, 41])]\<rparr>) \<and>
   length [(20, 30) :: int \<times> int] \<le> 1 \<and>
   (\<exists>box. detect_at (example_world 0) (button_on_frame 1) (JStr (lit ''Skip'')) 1 =
      (Some (20, 30), Some box)) \<and>
   run_live_mode (example_world 10) (const_florence None) (JStr (lit ''Skip'')) 3 30
     (lit ''live_outputs'') (initial_state 0) =
   Some (Inr \<lparr>status = lit ''partial'', message = MSG_TIME_LIMIT, clicked_at = None\<rparr>,
         \<lparr>clock = 39, captures = 3, clicks = [], snapshots = []\<rparr>)"
proof -
  from live_mode_clicks_at_most_once [OF run_button_on_frame_1]
  have "\<exists>k box. (3::nat) = Suc (Suc k) \<and>
      detect_at (example_world 0) (button_on_frame 1) (JStr (lit ''Skip'')) k =
        (Some (20, 30), Some box)"
    by simp
  then have "\<exists>box. detect_at (example_world 0) (button_on_frame 1) (JStr (lit ''Skip'')) 1 =
      (Some (20, 30), Some box)"
    by (auto simp: numeral_3_eq_3)
  with run_button_on_frame_1 run_never_found show ?thesis
    by simp
qed

lemma success_not_partial: "lit ''success'' \<noteq> lit ''partial''"
  by (simp add: lit_def)

text \<open>
  C8.  A live run that returns a result either ended its polling loop by timeout, with no
  poll detecting a box, and then returns the status \<^verbatim>\<open>partial\<close> with the time-limit message
  and no \<^verbatim>\<open>clicked_at\<close> entry; or its last poll detected a box, and then \<^verbatim>\<open>clicked_at\<close> is the
  centre of that box and the status is \<^verbatim>\<open>success\<close> exactly when the detection on the next
  capture (taken after the fixed delay) returns no box, and \<^verbatim>\<open>partial\<close> with the advisory
  message otherwise.
\<close>

theorem live_mode_result:
  assumes "run_live_mode w fl cap iv mx out s = Some (Inr res, s')"
  shows "(res = \<lparr>status = lit ''partial'', message = MSG_TIME_LIMIT, clicked_at = None\<rparr> \<and>
          \<not> clock s' - clock s < real_of_int mx \<and>
          (\<forall>j. captures s \<le> j \<and> j < captures s' \<longrightarrow>
             \<not> truthy_bbox (snd (detect_at w fl cap j)))) \<or>
         (\<exists>k box. captures s \<le> k \<and> captures s' = Suc (Suc k) \<and>
            detect_at w fl cap k = (Some (midpoint box), Some box) \<and>
            clicked_at res = Some (Some (midpoint box)) \<and>
            (status res = lit ''success'') = (snd (detect_at w fl cap (Suc k)) = None) \<and>
            (status res, message res) =
              (if snd (detect_at w fl cap (Suc k)) = None then (lit ''success'', MSG_SKIPPED)
               else (lit ''partial'', MSG_STILL_PRESENT)))"
  using assms
proof (cases rule: run_live_mode_cases)
  case (error e)
  then show ?thesis by simp
next
  case (timed_out p)
  from poll_loop_timed_out [OF timed_out(1)] timed_out(2) show ?thesis
    by simp
next
  case (found pos s1)
  from poll_loop_found_at [OF found(1)] obtain k box where k: "captures s \<le> k"
    "captures s1 = Suc k" "detect_at w fl cap k = (pos, Some box)"
    by blast
  from k(3) have "detect_skip_button fl cap (fst (screen w k)) (snd (screen w k)) = (pos, Some box)"
    by (simp add: detect_at_def)
  from selected_box_matches_and_fits_aux [OF this] have pos: "pos = Some (midpoint box)"
    by blast
  have cap1: "captures (skip_ad_action w pos s1) = Suc k"
    using k(2) pos by (simp add: skip_ad_action_def)
  from found(2) have res: "res =
      \<lparr>status = fst (fst (verify_skip_success w fl cap (skip_ad_action w pos s1))),
       message = snd (fst (verify_skip_success w fl cap (skip_ad_action w pos s1))),
       clicked_at = Some pos\<rparr>"
    by simp
  have "captures s \<le> k \<and> captures s' = Suc (Suc k) \<and>
      detect_at w fl cap k = (Some (midpoint box), Some box) \<and>
      clicked_at res = Some (Some (midpoint box)) \<and>
      (status res = lit ''success'') = (snd (detect_at w fl cap (Suc k)) = None) \<and>
      (status res, message res) =
        (if snd (detect_at w fl cap (Suc k)) = None then (lit ''success'', MSG_SKIPPED)
         else (lit ''partial'', MSG_STILL_PRESENT))"
    using k(1,3) pos cap1 found(3) success_not_partial
    by (simp add: res verify_skip_success_eq)
  then show ?thesis
    by (intro disjI2 exI [of _ k] exI [of _ box])
qed

theorem live_mode_result_witness:
  "run_live_mode (example_world 0) (button_on_frame 1) (JStr (lit ''Skip'')) 3 30
     (lit ''live_outputs'') (initial_state 0) =
   Some (Inr \<lparr>status = lit ''success'', message = MSG_SKIPPED, clicked_at = Some (Some (20, 30))\<rparr>,
         \<lparr>clock = 5, captures = 3, clicks = [(20, 30)],
          snapshots = [(lit ''live_outputs/detection_20250101_120000.png'', [10, 20, 31, 41])]\<rparr>) \<and>
   snd (detect_at (example_world 0) (button_on_frame 1) (JStr (lit ''Skip'')) 2) = None \<and>
   run_live_mode (example_world 0) (const_florence skip_box) (JStr (lit ''Skip'')) 3 30
     (lit ''live_outputs'') (initial_state 0) =
   Some (Inr \<lparr>status = lit ''partial'', message = MSG_STILL_PRESENT,
               clicked_at = Some (Some (20, 30))\<rparr>,
         \<lparr>clock = 2, captures = 2, clicks = [(20, 30)],
          snapshots = [(lit ''live_outputs/detection_20250101_120000.png'', [10, 20, 31, 41])]\<rparr>) \<and>
   snd (detect_at (example_world 0) (const_florence skip_box) (JStr (lit ''Skip'')) 1) \<noteq> None \<and>
   run_live_mode (example_world 10) (const_florence None) (JStr (lit ''Skip'')) 3 30
     (lit ''live_outputs'') (initial_state 0) =
   Some (Inr \<lparr>status = lit ''partial'', message = MSG_TIME_LIMIT, clicked_at = None\<rparr>,
         \<lparr>clock = 39, captures = 3, clicks = [], snapshots = []\<rparr>) \<and>
   \<not> clock \<lparr>clock = 39, captures = 3, clicks = [], snapshots = []\<rparr> - clock (initial_state 0)
       < real_of_int 30"
proof -
  from live_mode_result [OF run_button_on_frame_1]
  have a: "snd (detect_at (example_world 0) (button_on_frame 1) (JStr (lit ''Skip'')) 2) = None"
    by (auto simp: numeral_2_eq_2)
  from live_mode_result [OF run_button_always] success_not_partial
  have b: "snd (detect_at (example_world 0) (const_florence skip_box) (JStr (lit ''Skip'')) 1) \<noteq> None"
    by auto
  from live_mode_result [OF run_never_found]
  have c: "\<not> clock \<lparr>clock = 39, captures = 3, clicks = [], snapshots = []\<rparr> - clock (initial_state 0)
       < real_of_int 30"
    by simp
  from a b c run_button_on_frame_1 run_button_always run_never_found show ?thesis
    by simp
qed






section \<open>Settings and the entry point\<close>

lemma main_without_settings:
  assumes "load_settings (settings_files w) (lit ''settings.json'') = None"
  shows "main w a now = Some \<lparr>exit_code = 1, events = []\<rparr>"
  using assms by (simp add: main_def)

lemma load_settings_None_iff:
  "load_settings files path = None \<longleftrightarrow>
     (case files path of
        Contents (JObj kvs) \<Rightarrow> \<not> truthy (dict_get kvs (lit ''grounding_caption''))
      | _ \<Rightarrow> True)"
  by (auto simp: load_settings_def load_settings_try_def
      split: settings_file.splits json.splits)

text \<open>
  C7.  When \<^verbatim>\<open>settings.json\<close> is missing, is not valid JSON, or is an object whose
  \<^verbatim>\<open>grounding_caption\<close> entry is absent or the empty string, \<^verbatim>\<open>main\<close> ends with exit code 1
  and nothing has happened before: neither \<^verbatim>\<open>from_pretrained\<close> call is made, and the
  settings are read once.
\<close>

theorem bad_settings_exit_before_model_load:
  assumes "settings_files w (lit ''settings.json'') = Missing \<or>
           settings_files w (lit ''settings.json'') = Malformed \<or>
           (\<exists>kvs. settings_files w (lit ''settings.json'') = Contents (JObj kvs) \<and>
              (map_of kvs (lit ''grounding_caption'') = None \<or>
               map_of kvs (lit ''grounding_caption'') = Some (JStr [])))"
  shows "main w a now = Some \<lparr>exit_code = 1, events = []\<rparr>"
proof (rule main_without_settings)
  from assms show "load_settings (settings_files w) (lit ''settings.json'') = None"
    by (auto simp: load_settings_None_iff dict_get_def)
qed

theorem bad_settings_exit_before_model_load_witness:
  "settings_files no_settings_world (lit ''settings.json'') = Missing \<and>
   main no_settings_world default_args 0 = Some \<lparr>exit_code = 1, events = []\<rparr>"
proof -
  have m: "settings_files no_settings_world (lit ''settings.json'') = Missing"
    by (simp add: no_settings_world_def)
  then have "settings_files no_settings_world (lit ''settings.json'') = Missing \<or>
      settings_files no_settings_world (lit ''settings.json'') = Malformed \<or>
      (\<exists>kvs. settings_files no_settings_world (lit ''settings.json'') = Contents (JObj kvs) \<and>
         (map_of kvs (lit ''grounding_caption'') = None \<or>
          map_of kvs (lit ''grounding_caption'') = Some (JStr [])))"
    by simp
  from m bad_settings_exit_before_model_load [OF this] show ?thesis
    by simp
qed

section \<open>Test mode\<close>

lemma test_loop_results:
  assumes "test_loop w fl cap out files st = Inr st'"
  shows "\<exists>new. fst st' = fst st @ new \<and> map img_file new = files \<and>
           (\<forall>r\<in>set new. \<exists>img sz. open_image w (img_file r) = Inr (img, sz) \<and>
              (position r, bbox r) = detect_skip_button fl cap img sz \<and>
              (detected r \<longleftrightarrow> bbox r \<noteq> None))"
  using assms
proof (induction files arbitrary: st)
  case Nil
  then show ?case by simp
next
  case (Cons img_path rest)
  from Cons.prems obtain img sz where opened: "open_image w img_path = Inr (img, sz)"
    by (cases "open_image w img_path") (auto simp: and_then_def)
  obtain pos box where d: "detect_skip_button fl cap img sz = (pos, box)"
    by (cases "detect_skip_button fl cap img sz")
  let ?r = "\<lparr>img_file = img_path, detected = (box \<noteq> None), position = pos, bbox = box\<rparr>"
  from Cons.prems opened d obtain wr where
    rest: "test_loop w fl cap out rest (fst st @ [?r], wr) = Inr st'"
    by (auto simp: and_then_Inr_iff Let_def split: if_splits)
  from Cons.IH [OF rest] obtain new where new: "fst st' = (fst st @ [?r]) @ new"
    "map img_file new = rest"
    "\<forall>r\<in>set new. \<exists>img sz. open_image w (img_file r) = Inr (img, sz) \<and>
        (position r, bbox r) = detect_skip_button fl cap img sz \<and>
        (detected r \<longleftrightarrow> bbox r \<noteq> None)"
    by auto
  from new opened d have "fst st' = fst st @ (?r # new) \<and> map img_file (?r # new) = img_path # rest \<and>
      (\<forall>r\<in>set (?r # new). \<exists>img sz. open_image w (img_file r) = Inr (img, sz) \<and>
         (position r, bbox r) = detect_skip_button fl cap img sz \<and>
         (detected r \<longleftrightarrow> bbox r \<noteq> None))"
    by (cases sz) auto
  then show ?case by (rule exI [of _ "?r # new"])
qed

lemma test_loop_returns:
  assumes "\<forall>p\<in>set files. \<exists>img sz. open_image w p = Inr (img, sz) \<and>
             (\<forall>pos box. detect_skip_button fl cap img sz = (pos, Some box) \<longrightarrow> length box = 4)"
  shows "\<exists>st'. test_loop w fl cap out files st = Inr st'"
  using assms
proof (induction files arbitrary: st)
  case Nil
  then show ?case by simp
next
  case (Cons img_path rest)
  then obtain img sz where opened: "open_image w img_path = Inr (img, sz)"
    and four: "\<forall>pos box. detect_skip_button fl cap img sz = (pos, Some box) \<longrightarrow> length box = 4"
    by auto
  obtain pos box where d: "detect_skip_button fl cap img sz = (pos, box)"
    by (cases "detect_skip_button fl cap img sz")
  have "\<exists>files. (if truthy_bbox box
          then draw_bbox_on_image box (path_join out (lit ''output_'' @ basename img_path))
          else Inr []) = Inr files"
    using four d by (auto simp: truthy_bbox_def draw_bbox_on_image_def split: option.splits)
  then obtain files where "(if truthy_bbox box
          then draw_bbox_on_image box (path_join out (lit ''output_'' @ basename img_path))
          else Inr []) = Inr files"
    by blast
  with opened d Cons show ?case
    by (simp add: Let_def)
qed

lemma run_test_mode_returns:
  assumes "\<forall>p\<in>set (image_files w dir). \<exists>img sz. open_image w p = Inr (img, sz) \<and>
             (\<forall>pos box. detect_skip_button fl cap img sz = (pos, Some box) \<longrightarrow> length box = 4)"
  shows "\<exists>run. run_test_mode w fl cap dir out = Inr run"
proof -
  from test_loop_returns [OF assms] obtain st' where
    "test_loop w fl cap out (image_files w dir) ([], []) = Inr st'"
    by blast
  then show ?thesis
    by (cases st') (simp add: run_test_mode_def)
qed

text \<open>
  C9.  When a run of test mode returns, its result list has one record for each path
  that \<^verbatim>\<open>glob\<close> returned for \<^verbatim>\<open>*.png\<close> and for \<^verbatim>\<open>*.jpg\<close> directly under the directory, in
  that order; each record holds the detection made on the image of its file, with
  \<^verbatim>\<open>detected\<close> true exactly when the box of that detection is not \<^verbatim>\<open>None\<close>; and the summary
  line prints the number of records with \<^verbatim>\<open>detected\<close> over the number of files.
\<close>

theorem test_mode_results:
  assumes "run_test_mode w fl cap dir out = Inr run"
  shows "map img_file (results run) =
           glob w (path_join dir (lit ''*.png'')) @ glob w (path_join dir (lit ''*.jpg'')) \<and>
         (\<forall>r\<in>set (results run). \<exists>img sz. open_image w (img_file r) = Inr (img, sz) \<and>
            (position r, bbox r) = detect_skip_button fl cap img sz \<and>
            (detected r \<longleftrightarrow> bbox r \<noteq> None)) \<and>
         summary run =
           GOLD @ lit ''Test complete: '' @ str_nat (length (filter detected (results run))) @
           lit ''/'' @
           str_nat (length (glob w (path_join dir (lit ''*.png'')) @
                            glob w (path_join dir (lit ''*.jpg'')))) @
           lit '' detections.'' @ RESET"
proof -
  from assms obtain rs files where
    loop: "test_loop w fl cap out (image_files w dir) ([], []) = Inr (rs, files)"
    and run: "run = \<lparr>summary =
                 GOLD @ lit ''Test complete: '' @ str_nat (length (filter detected rs)) @
                 lit ''/'' @ str_nat (length rs) @ lit '' detections.'' @ RESET,
               results = rs, written = files\<rparr>"
    by (auto simp: run_test_mode_def and_then_Inr_iff)
  from test_loop_results [OF loop] have rs: "map img_file rs = image_files w dir"
    and each: "\<forall>r\<in>set rs. \<exists>img sz. open_image w (img_file r) = Inr (img, sz) \<and>
        (position r, bbox r) = detect_skip_button fl cap img sz \<and>
        (detected r \<longleftrightarrow> bbox r \<noteq> None)"
    by auto
  from rs have "length rs = length (image_files w dir)"
    by (metis length_map)
  with rs each run show ?thesis
    by (simp add: image_files_def)
qed

lemma detect_button_on_frame:
  "detect_skip_button (button_on_frame n) (JStr caption) k sz =
     (if k = n then (Some (20, 30), Some [10, 20, 31, 41]) else (None, None))"
  by (simp add: detect_skip_button_def detect_try_def button_on_frame_def scan_skip_box
      grounding_pairs_None)

lemma example_image_files:
  "image_files (example_world d) (lit ''shots'') =
     [lit ''shots/a.png'', lit ''shots/b.png'', lit ''shots/c.jpg'']"
  by (simp add: image_files_def example_world_def path_join_def lit_def)

lemma example_open_image:
  "open_image (example_world d) (lit ''shots/a.png'') = Inr (1, (1920, 1080))"
  "open_image (example_world d) (lit ''shots/b.png'') = Inr (0, (1920, 1080))"
  "open_image (example_world d) (lit ''shots/c.jpg'') = Inr (1, (1920, 1080))"
  by (simp_all add: example_world_def lit_def)

lemma example_output_paths:
  "path_join (lit ''test_outputs'') (lit ''output_'' @ basename (lit ''shots/a.png'')) =
     lit ''test_outputs/output_a.png''"
  "path_join (lit ''test_outputs'') (lit ''output_'' @ basename (lit ''shots/c.jpg'')) =
     lit ''test_outputs/output_c.jpg''"
  by (simp_all add: path_join_def basename_def lit_def)

lemma example_summary:
  "GOLD @ lit ''Test complete: '' @ str_nat 2 @ lit ''/'' @ str_nat 3 @ lit '' detections.'' @ RESET =
     GOLD @ lit ''Test complete: 2/3 detections.'' @ RESET"
  by (simp add: str_nat.simps lit_def)

lemma run_test_example:
  "run_test_mode (example_world 0) (button_on_frame 1) (JStr (lit ''Skip'')) (lit ''shots'')
     (lit ''test_outputs'') =
   Inr \<lparr>summary = GOLD @ lit ''Test complete: 2/3 detections.'' @ RESET,
        results =
          [\<lparr>img_file = lit ''shots/a.png'', detected = True, position = Some (20, 30),
             bbox = Some [10, 20, 31, 41]\<rparr>,
           \<lparr>img_file = lit ''shots/b.png'', detected = False, position = None, bbox = None\<rparr>,
           \<lparr>img_file = lit ''shots/c.jpg'', detected = True, position = Some (20, 30),
             bbox = Some [10, 20, 31, 41]\<rparr>],
        written =
          [(lit ''test_outputs/output_a.png'', [10, 20, 31, 41]),
           (lit ''test_outputs/output_c.jpg'', [10, 20, 31, 41])]\<rparr>"
  by (simp add: run_test_mode_def example_image_files example_open_image detect_button_on_frame
      truthy_bbox_def draw_bbox_on_image_def example_output_paths example_summary [symmetric]
      numeral_2_eq_2 numeral_3_eq_3)

theorem test_mode_results_witness:
  "run_test_mode (example_world 0) (button_on_frame 1) (JStr (lit ''Skip'')) (lit ''shots'')
     (lit ''test_outputs'') =
   Inr \<lparr>summary = GOLD @ lit ''Test complete: 2/3 detections.'' @ RESET,
        results =
          [\<lparr>img_file = lit ''shots/a.png'', detected = True, position = Some (20, 30),
             bbox = Some [10, 20, 31, 41]\<rparr>,
           \<lparr>img_file = lit ''shots/b.png'', detected = False, position = None, bbox = None\<rparr>,
           \<lparr>img_file = lit ''shots/c.jpg'', detected = True, position = Some (20, 30),
             bbox = Some [10, 20, 31, 41]\<rparr>],
        written =
          [(lit ''test_outputs/output_a.png'', [10, 20, 31, 41]),
           (lit ''test_outputs/output_c.jpg'', [10, 20, 31, 41])]\<rparr> \<and>
   [lit ''shots/a.png'', lit ''shots/b.png'', lit ''shots/c.jpg''] =
     glob (example_world 0) (path_join (lit ''shots'') (lit ''*.png'')) @
     glob (example_world 0) (path_join (lit ''shots'') (lit ''*.jpg'')) \<and>
   GOLD @ lit ''Test complete: 2/3 detections.'' @ RESET =
     GOLD @ lit ''Test complete: '' @ str_nat 2 @ lit ''/'' @ str_nat 3 @ lit '' detections.'' @ RESET"
proof -
  from test_mode_results [OF run_test_example]
  have "[lit ''shots/a.png'', lit ''shots/b.png'', lit ''shots/c.jpg''] =
      glob (example_world 0) (path_join (lit ''shots'') (lit ''*.png'')) @
      glob (example_world 0) (path_join (lit ''shots'') (lit ''*.jpg''))"
    by simp
  with run_test_example example_summary show ?thesis
    by simp
qed

end
